theory Spec2Isabelle
  imports Main "HOL-Library.Sublist"
begin

section \<open>Go standard library functions used by the program\<close>

text \<open>
  The program is a Go command (package \<open>main\<close>).  Go strings are byte sequences and are
  modelled as \<open>string\<close>.  The functions of this section are those of the Go standard
  library that the program calls on strings and paths; they are written from the library's
  documentation, for a Unix target (\<open>os.PathSeparator = '/'\<close>,
  \<open>os.PathListSeparator = ':'\<close>, no volume names).
\<close>

subsection \<open>Package strings\<close>

definition HasPrefix :: "string \<Rightarrow> string \<Rightarrow> bool" where
  "HasPrefix s pre = prefix pre s"

definition TrimPrefix :: "string \<Rightarrow> string \<Rightarrow> string" where
  "TrimPrefix s pre = (if HasPrefix s pre then drop (length pre) s else s)"

definition HasSuffix :: "string \<Rightarrow> string \<Rightarrow> bool" where
  "HasSuffix s suf = prefix (rev suf) (rev s)"

definition TrimSuffix :: "string \<Rightarrow> string \<Rightarrow> string" where
  "TrimSuffix s suf = (if HasSuffix s suf then take (length s - length suf) s else s)"

text \<open>\<open>strings.Split(s, "/")\<close> and \<open>strings.Join(elems, "/")\<close>.\<close>

fun splitSlash :: "string \<Rightarrow> string list" where
  "splitSlash [] = [[]]"
| "splitSlash (c # cs) =
     (if c = CHR ''/'' then [] # splitSlash cs
      else (case splitSlash cs of [] \<Rightarrow> [[c]] | x # xs \<Rightarrow> (c # x) # xs))"

fun joinSlash :: "string list \<Rightarrow> string" where
  "joinSlash [] = []"
| "joinSlash [x] = x"
| "joinSlash (x # y # zs) = x @ CHR ''/'' # joinSlash (y # zs)"

subsection \<open>Package path/filepath\<close>

text \<open>
  \<open>filepath.Clean\<close> processes the path one slash-separated element at a time, keeping the
  elements written so far: an empty element and \<open>.\<close> are dropped; \<open>..\<close> removes the last
  real element written, is dropped at the root of a rooted path, and is kept at the start
  of a relative one; any other element is appended.  \<open>cleanStep\<close> is one such step on the
  elements written so far, the last one first.
\<close>

definition cleanStep :: "bool \<Rightarrow> string list \<Rightarrow> string \<Rightarrow> string list" where
  "cleanStep rooted st c =
     (if c = [] \<or> c = ''.'' then st
      else if c = ''..'' then
        (case st of
           [] \<Rightarrow> if rooted then [] else [''..'']
         | t # r \<Rightarrow> if t \<noteq> ''..'' then r else if rooted then st else ''..'' # st)
      else c # st)"

definition Clean :: "string \<Rightarrow> string" where
  "Clean path =
     (if path = [] then ''.''
      else
        let rooted = (hd path = CHR ''/'');
            st = rev (foldl (cleanStep rooted) [] (splitSlash path))
        in if rooted then CHR ''/'' # joinSlash st
           else if st = [] then ''.'' else joinSlash st)"

text \<open>
  \<open>filepath.Join\<close>: the elements from the first non-empty one on are joined with slashes
  and the result is cleaned; when every element is empty the result is the empty string.
\<close>

definition Join :: "string list \<Rightarrow> string" where
  "Join elem =
     (case dropWhile (\<lambda>e. e = []) elem of
        [] \<Rightarrow> []
      | es \<Rightarrow> Clean (joinSlash es))"

text \<open>\<open>filepath.Dir\<close>: everything up to the last slash, cleaned.\<close>

definition Dir :: "string \<Rightarrow> string" where
  "Dir path = Clean (rev (dropWhile (\<lambda>c. c \<noteq> CHR ''/'') (rev path)))"

text \<open>
  The name that \<open>os.Lstat(path)\<close> reports for \<open>path\<close> itself: trailing slashes are
  removed (but not a first character), then everything up to the last slash before the
  final character.
\<close>

fun stripSlashes :: "string \<Rightarrow> string" where
  "stripSlashes [] = []"
| "stripSlashes [c] = [c]"
| "stripSlashes (c # cs) = (if c = CHR ''/'' then stripSlashes cs else c # cs)"

definition basename :: "string \<Rightarrow> string" where
  "basename name =
     (case stripSlashes (rev name) of
        [] \<Rightarrow> []
      | c # cs \<Rightarrow> rev (c # takeWhile (\<lambda>d. d \<noteq> CHR ''/'') cs))"


section \<open>The environment of the program\<close>

text \<open>
  A Go \<open>error\<close> value: \<open>filepath.SkipDir\<close>, or any other error, given by the text its
  \<open>Error()\<close> method returns.
\<close>

datatype error = SkipDir | Error string

fun errmsg :: "error \<Rightarrow> string" where
  "errmsg SkipDir = ''skip this directory''"
| "errmsg (Error m) = m"

text \<open>The two methods of \<open>os.FileInfo\<close> that the program calls.\<close>

record fileinfo =
  Name :: string
  IsDir :: bool

text \<open>
  The file tree below a path, as \<open>filepath.Walk\<close> reads it: \<open>os.Lstat\<close> of an entry fails,
  or the entry is not a directory (a regular file, a symbolic link, ...), or it is a
  directory whose names cannot be read, or a directory with its entries in the order in
  which they are returned (sorted by name).
\<close>

datatype fsnode =
    LstatFails error
  | NonDir
  | UnreadableDir error
  | Directory "(string \<times> fsnode) list"

text \<open>
  The top-level declarations of a parsed file (\<open>ast.File.Decls\<close>): a \<open>*ast.FuncDecl\<close> has a
  name and a receiver, which is \<open>nil\<close> for a function and the receiver's type for a method;
  the other declarations are \<open>*ast.GenDecl\<close> and \<open>*ast.BadDecl\<close>.
\<close>

datatype decl =
    BadDecl
  | GenDecl
  | FuncDecl (Recv: "string option") (FuncName: string)

text \<open>
  The result of \<open>exec.Cmd.Output\<close>: the standard output of a process that exited with
  status 0; an \<open>*exec.ExitError\<close> with the captured standard error and its message; or
  another error (the process could not be started).
\<close>

datatype cmd_output =
    Output string
  | ExitError string string
  | StartError error

fun cmd_err :: "cmd_output \<Rightarrow> error option" where
  "cmd_err (Output out) = None"
| "cmd_err (ExitError errout m) = Some (Error m)"
| "cmd_err (StartError e) = Some e"

text \<open>
  Everything the program reads from outside: the process environment and arguments, the
  file system, the Go parser and the two external commands.  The answers are fixed for a
  run.
\<close>

record world =
  os_LookupEnv :: "string \<Rightarrow> string option"
  os_Environ :: "string list"
  os_Args :: "string list"
  fs_tree :: "string \<Rightarrow> fsnode"
  os_Stat :: "string \<Rightarrow> error + fileinfo"
  parser_ParseFile :: "string \<Rightarrow> error + decl list"
  exec_gopherjs :: "string list \<Rightarrow> string list \<Rightarrow> string \<times> error option"
  exec_pagegen :: "string list \<Rightarrow> cmd_output"
  os_Create :: "string \<Rightarrow> error option"
  io_Copy :: "string \<Rightarrow> string \<Rightarrow> error option"

text \<open>\<open>os.Getenv\<close>: the value of the variable, empty when it is not set.\<close>

definition Getenv :: "world \<Rightarrow> string \<Rightarrow> string" where
  "Getenv w key = (case os_LookupEnv w key of None \<Rightarrow> [] | Some v \<Rightarrow> v)"

text \<open>What the program does to the outside, in order.\<close>

datatype event =
    Stdout string
  | Stderr string
  | RunGopherjs "string list" "string list"
  | RunPagegen "string list"
  | CreateFile string
  | WriteFile string string

text \<open>
  A function that returns normally or panics, and the three ways in which the process
  ends: \<open>main\<close> returns, \<open>os.Exit\<close> is called, or a panic reaches the top.
\<close>

datatype 'a outcome = Return 'a | Panic string

datatype halt = Returned | Exited nat | Panicked string

text \<open>The exit status of the process: the Go runtime ends a panicking program with 2.\<close>

fun exit_status :: "halt \<Rightarrow> nat" where
  "exit_status Returned = 0"
| "exit_status (Exited n) = n"
| "exit_status (Panicked m) = 2"

subsection \<open>filepath.Walk\<close>

text \<open>
  The arguments \<open>(info, err)\<close> of a \<open>filepath.WalkFunc\<close>: an entry with its \<open>FileInfo\<close> and
  no error, or an error, with the \<open>FileInfo\<close> when \<open>Lstat\<close> succeeded.
\<close>

datatype walk_visit = Visit fileinfo | VisitErr "fileinfo option" error

type_synonym 's WalkFunc = "string \<Rightarrow> walk_visit \<Rightarrow> 's \<Rightarrow> 's \<times> error option"

fun skippable :: "fsnode \<Rightarrow> bool" where
  "skippable NonDir = False"
| "skippable n = True"

text \<open>
  \<open>filepath.Walk\<close> as the standard library documents it.  \<open>walk\<close> visits one entry,
  \<open>walkNames\<close> the entries of a directory, each under the path \<open>Join\<close> of the directory
  and its name.  The function is called on a directory before its entries, with the error
  of reading its names if there is one; when it returns \<open>SkipDir\<close> for a directory (or
  for an entry whose \<open>Lstat\<close> failed) that entry is skipped; any other error, and
  \<open>SkipDir\<close> for an entry that is not a directory, ends the walk of the enclosing
  directory and is returned.  \<open>Walk\<close> itself turns a final \<open>SkipDir\<close> into \<open>nil\<close>.
  The state \<open>s\<close> stands for the variables that the function closes over.
\<close>

fun walk :: "'s WalkFunc \<Rightarrow> string \<Rightarrow> string \<Rightarrow> fsnode \<Rightarrow> 's \<Rightarrow> 's \<times> error option"
and walkNames :: "'s WalkFunc \<Rightarrow> string \<Rightarrow> (string \<times> fsnode) list \<Rightarrow> 's \<Rightarrow> 's \<times> error option"
where
  "walk fn path name (LstatFails e) s = fn path (VisitErr None e) s"
| "walk fn path name NonDir s = fn path (Visit \<lparr>Name = name, IsDir = False\<rparr>) s"
| "walk fn path name (UnreadableDir e) s =
     fn path (VisitErr (Some \<lparr>Name = name, IsDir = True\<rparr>) e) s"
| "walk fn path name (Directory entries) s =
     (case fn path (Visit \<lparr>Name = name, IsDir = True\<rparr>) s of
        (s1, Some err1) \<Rightarrow> (s1, Some err1)
      | (s1, None) \<Rightarrow> walkNames fn path entries s1)"
| "walkNames fn path [] s = (s, None)"
| "walkNames fn path ((name, node) # rest) s =
     (case walk fn (Join [path, name]) name node s of
        (s1, None) \<Rightarrow> walkNames fn path rest s1
      | (s1, Some err) \<Rightarrow>
          if skippable node \<and> err = SkipDir then walkNames fn path rest s1
          else (s1, Some err))"

definition Walk :: "world \<Rightarrow> string \<Rightarrow> 's WalkFunc \<Rightarrow> 's \<Rightarrow> 's \<times> error option" where
  "Walk w root fn s =
     (case walk fn root (basename root) (fs_tree w root) s of
        (s1, err) \<Rightarrow> if err = Some SkipDir then (s1, None) else (s1, err))"


section \<open>The program\<close>

text \<open>
  The functions below are those of the program with \<open>pageGeneration\<close> (the later
  revision); the earlier revision, \<open>src/main.go\<close>, follows.  A function that writes
  to the terminal, starts a process or creates a file returns the events it causes, in
  order, with its result.
\<close>

record globals =
  verbose :: bool

definition init_globals :: globals where
  "init_globals = \<lparr>verbose = True\<rparr>"

subsection \<open>Support functions\<close>

definition constructClientPackagePath :: "string \<Rightarrow> string \<Rightarrow> string" where
  "constructClientPackagePath project arg = Join [project, ''src'', arg, ''client'']"

definition constructPagesPath :: "string \<Rightarrow> string \<Rightarrow> string" where
  "constructPagesPath project arg = Join [project, ''src'', arg, ''pages'']"

definition constructTemplatesPath :: "string \<Rightarrow> string \<Rightarrow> string" where
  "constructTemplatesPath project arg = Join [project, ''src'', arg, ''pages'', ''template'']"

definition constructSupportPath :: "string \<Rightarrow> string \<Rightarrow> string" where
  "constructSupportPath project arg =
     Join [project, ''src'', arg, ''pages'', ''template'', ''support'']"

definition constructStaticEnglishPath :: "string \<Rightarrow> string \<Rightarrow> string" where
  "constructStaticEnglishPath project arg = Join [project, ''src'', arg, ''static'', ''en'', ''web'']"

text \<open>\<open>_, err := os.Stat(path); return err\<close>, the body of the three functions below.\<close>

definition stat_err :: "world \<Rightarrow> string \<Rightarrow> error option" where
  "stat_err w path = (case os_Stat w path of Inl e \<Rightarrow> Some e | Inr info \<Rightarrow> None)"

definition validateClientPackage :: "world \<Rightarrow> string \<Rightarrow> string \<Rightarrow> error option" where
  "validateClientPackage w projectDir arg = stat_err w (constructClientPackagePath projectDir arg)"

definition validatePagesDir :: "world \<Rightarrow> string \<Rightarrow> string \<Rightarrow> error option" where
  "validatePagesDir w projectDir arg = stat_err w (constructPagesPath projectDir arg)"

definition validateStaticEnglishDir :: "world \<Rightarrow> string \<Rightarrow> string \<Rightarrow> error option" where
  "validateStaticEnglishDir w projectDir arg = stat_err w (constructStaticEnglishPath projectDir arg)"

definition validateExecutablesInPath :: "world \<Rightarrow> string \<Rightarrow> event list \<times> error option" where
  "validateExecutablesInPath w projectDir =
     (let env = os_Environ w @ [''GOPATH='' @ projectDir] in
      case snd (exec_gopherjs w [] env) of
        Some err \<Rightarrow> ([RunGopherjs [] env], Some err)
      | None \<Rightarrow> ([RunGopherjs [] env, RunPagegen []], cmd_err (exec_pagegen w [])))"

definition validateProjectStructure :: "world \<Rightarrow> string \<Rightarrow> string \<Rightarrow> event list \<times> error option" where
  "validateProjectStructure w project arg =
     (case validateClientPackage w project arg of
        Some err \<Rightarrow>
          ([Stderr (''Unable to find client package in '' @
                    constructClientPackagePath project arg @ ''\<newline>'')], Some err)
      | None \<Rightarrow>
     (case validateStaticEnglishDir w project arg of
        Some err \<Rightarrow>
          ([Stderr (''Unable to find static/en/web directory, expected it to be '' @
                    constructStaticEnglishPath project arg @ ''\<newline>'')], Some err)
      | None \<Rightarrow>
     (case validatePagesDir w project arg of
        Some err \<Rightarrow>
          ([Stderr (''Unable to find pages directory, expected it to be '' @
                    constructPagesPath project arg @ ''\<newline>'')], Some err)
      | None \<Rightarrow> ([], None))))"

definition help_fn :: "event list" where
  "help_fn = [Stdout ''gb seven5 requires a package name to build client software from\<newline>'']"

subsection \<open>The external commands\<close>

definition launchGopherjs :: "world \<Rightarrow> string \<Rightarrow> string list \<Rightarrow> event list \<times> error option" where
  "launchGopherjs w projectDir args =
     (let vendor = projectDir @ ''/'' @ ''vendor'';
          bothDirs = projectDir @ '':'' @ vendor;
          env = os_Environ w @ [''GOPATH='' @ bothDirs]
      in case exec_gopherjs w args env of
           (out, err) \<Rightarrow> ([RunGopherjs args env, Stdout out], err))"

definition launchPagegen ::
  "world \<Rightarrow> string \<Rightarrow> string \<Rightarrow> string \<Rightarrow> string \<Rightarrow> string \<Rightarrow> event list \<times> error option" where
  "launchPagegen w supportPath templatesPath htmlInFile jsonFile htmlOutFile =
     (let args = [''--support'', supportPath, ''--dir'', templatesPath, ''--start'',
                  htmlInFile, ''--json'', jsonFile];
          evs = [Stdout (''XXXIES::: '' @ supportPath @ '', '' @ templatesPath @ '', '' @
                         htmlInFile @ '', '' @ jsonFile @ ''\<newline>''),
                 RunPagegen args]
      in case exec_pagegen w args of
           ExitError errout m \<Rightarrow> (evs @ [Stderr (errout @ ''\<newline>'')], Some (Error m))
         | StartError err \<Rightarrow>
             (evs @ [Stderr (''Unable to start pagegen process: '' @ errmsg err)], Some err)
         | Output out \<Rightarrow>
             (case os_Create w htmlOutFile of
                Some err \<Rightarrow>
                  (evs @ [Stderr (''unable to create output file '' @ htmlOutFile @ '': '' @
                                  errmsg err)], Some err)
              | None \<Rightarrow>
                  (evs @ [CreateFile htmlOutFile, WriteFile htmlOutFile out],
                   io_Copy w htmlOutFile out)))"

subsection \<open>The source scan\<close>

text \<open>The loop of \<open>hasMainFunc\<close> over the declarations of the file.\<close>

fun declsHaveMain :: "decl list \<Rightarrow> bool" where
  "declsHaveMain [] = False"
| "declsHaveMain (FuncDecl recv name # ds) = (if name = ''main'' then True else declsHaveMain ds)"
| "declsHaveMain (d # ds) = declsHaveMain ds"

definition hasMainFunc :: "world \<Rightarrow> string \<Rightarrow> event list \<times> (error + bool)" where
  "hasMainFunc w path =
     (case parser_ParseFile w path of
        Inl err \<Rightarrow> ([Stderr (''error parsing '' @ path @ '': '' @ errmsg err)], Inl err)
      | Inr decls \<Rightarrow> ([], Inr (declsHaveMain decls)))"

text \<open>The function that \<open>iterateDirs\<close> passes to \<open>filepath.Walk\<close>; it appends to \<open>gofiles\<close>.\<close>

definition iterateDirs_fn :: "(string list \<times> event list) WalkFunc" where
  "iterateDirs_fn path v st =
     (case st of (gofiles, evs) \<Rightarrow>
      (case v of
         VisitErr info err \<Rightarrow>
           ((gofiles, evs @ [Stderr (''error walking '' @ path @ '': '' @ errmsg err @ ''\<newline>'')]),
            Some err)
       | Visit info \<Rightarrow>
           if HasSuffix (Name info) ''.go'' then ((gofiles @ [path], evs), None)
           else ((gofiles, evs), None)))"

fun iterateDirs_loop ::
  "world \<Rightarrow> string list \<Rightarrow> string list \<times> event list \<Rightarrow> (string list \<times> event list) \<times> error option" where
  "iterateDirs_loop w [] st = (st, None)"
| "iterateDirs_loop w (dir # dirs) st =
     (case Walk w dir iterateDirs_fn st of
        (st1, Some err) \<Rightarrow> (st1, Some err)
      | (st1, None) \<Rightarrow> iterateDirs_loop w dirs st1)"

definition iterateDirs :: "world \<Rightarrow> string list \<Rightarrow> event list \<times> (error + string list)" where
  "iterateDirs w dirs =
     (case iterateDirs_loop w dirs ([], []) of
        ((gofiles, evs), Some err) \<Rightarrow> (evs, Inl err)
      | ((gofiles, evs), None) \<Rightarrow> (evs, Inr gofiles))"

subsection \<open>gopherjsCompilation\<close>

text \<open>The loop that finds the files with a \<open>main\<close>; \<open>pages\<close> is the list built so far.\<close>

fun findPages :: "world \<Rightarrow> string list \<Rightarrow> string list \<Rightarrow> event list \<times> (error + string list)" where
  "findPages w [] pages = ([], Inr pages)"
| "findPages w (gofile # gofiles) pages =
     (case hasMainFunc w gofile of
        (evs, Inl err) \<Rightarrow> (evs, Inl err)
      | (evs, Inr hasMain) \<Rightarrow>
          (case findPages w gofiles (if hasMain then pages @ [gofile] else pages) of
             (evs1, r) \<Rightarrow> (evs @ evs1, r)))"

text \<open>The loop that compiles each page to \<open>static/en/web\<close>.\<close>

fun compilePages :: "world \<Rightarrow> string \<Rightarrow> string \<Rightarrow> string list \<Rightarrow> event list \<times> error option outcome" where
  "compilePages w project arg [] = ([], Return None)"
| "compilePages w project arg (page # pages) =
     (if \<not> HasPrefix page (constructClientPackagePath project arg) then
        ([], Panic (''unable to understand page path '' @ page @ '' in package '' @
                    constructClientPackagePath project arg))
      else
        let suffix = TrimPrefix page (constructClientPackagePath project arg);
            target = Join [constructStaticEnglishPath project arg, suffix]
        in case launchGopherjs w project [''build'', ''-m'', ''-o'', target, page] of
             (evs, Some err) \<Rightarrow> (evs, Return (Some err))
           | (evs, None) \<Rightarrow>
               (case compilePages w project arg pages of (evs1, r) \<Rightarrow> (evs @ evs1, r)))"

definition gopherjsCompilation :: "world \<Rightarrow> string \<Rightarrow> string \<Rightarrow> event list \<times> error option outcome" where
  "gopherjsCompilation w project arg =
     (let dir = constructClientPackagePath project arg in
      case iterateDirs w [dir] of
        (evs, Inl err) \<Rightarrow> (evs, Return (Some err))
      | (evs, Inr gofiles) \<Rightarrow>
          (case findPages w gofiles [] of
             (evs1, Inl err) \<Rightarrow> (evs @ evs1, Return (Some err))
           | (evs1, Inr pages) \<Rightarrow>
               (case compilePages w project arg pages of
                  (evs2, r) \<Rightarrow> (evs @ evs1 @ evs2, r))))"

subsection \<open>pageGeneration\<close>

text \<open>
  The function that \<open>pageGeneration\<close> passes to \<open>filepath.Walk\<close>; it appends to
  \<open>jsonFiles\<close> and \<open>htmlFiles\<close>.
\<close>

definition pageGeneration_fn :: "world \<Rightarrow> (string list \<times> string list \<times> event list) WalkFunc" where
  "pageGeneration_fn w path v st =
     (case st of (jsonFiles, htmlFiles, evs) \<Rightarrow>
      (case v of
         VisitErr info err \<Rightarrow>
           ((jsonFiles, htmlFiles,
             evs @ [Stderr (''error walking '' @ path @ '': '' @ errmsg err @ ''\<newline>'')]),
            Some err)
       | Visit info \<Rightarrow>
           if IsDir info \<and> Name info = ''support'' then (st, Some SkipDir)
           else if HasSuffix (Name info) ''.json'' then
             (let parent = Dir path;
                  root = TrimSuffix (Name info) ''.json''
              in case os_Stat w (Join [parent, root @ ''.html'']) of
                   Inl err \<Rightarrow>
                     ((jsonFiles, htmlFiles,
                       evs @ [Stderr (''unable to find corresponding html file for json file '' @
                                      path @ ''\<newline>'')]),
                      Some (Error (''no html file for '' @ path)))
                 | Inr hinfo \<Rightarrow>
                     ((jsonFiles @ [path], htmlFiles @ [Join [parent, root @ ''.html'']], evs),
                      None))
           else (st, None)))"

text \<open>
  The loop over \<open>jsonFiles\<close>, \<open>i\<close> the index of \<open>jsonFile\<close>; indexing \<open>htmlFiles\<close> out of
  range is a run-time panic.
\<close>

fun generatePages ::
  "world \<Rightarrow> string \<Rightarrow> string \<Rightarrow> string list \<Rightarrow> nat \<Rightarrow> string list \<Rightarrow> event list \<times> error option outcome" where
  "generatePages w project arg htmlFiles i [] = ([], Return None)"
| "generatePages w project arg htmlFiles i (jsonFile # jsonFiles) =
     (if \<not> HasPrefix jsonFile (constructTemplatesPath project arg) then
        ([], Panic (''unable to understand json path '' @ jsonFile @ '' in template dir '' @
                    constructTemplatesPath project arg))
      else if length htmlFiles \<le> i then ([], Panic ''index out of range'')
      else
        let html = TrimPrefix (htmlFiles ! i) (constructTemplatesPath project arg);
            json = TrimPrefix jsonFile (constructTemplatesPath project arg)
        in case launchPagegen w ''support'' (constructTemplatesPath project arg) html json
                  (Join [constructStaticEnglishPath project arg, html]) of
             (evs, Some err) \<Rightarrow> (evs, Return (Some err))
           | (evs, None) \<Rightarrow>
               (case generatePages w project arg htmlFiles (Suc i) jsonFiles of
                  (evs1, r) \<Rightarrow> (evs @ evs1, r)))"

definition pageGeneration :: "world \<Rightarrow> string \<Rightarrow> string \<Rightarrow> event list \<times> error option outcome" where
  "pageGeneration w project arg =
     (let templatePath = constructTemplatesPath project arg in
      case Walk w templatePath (pageGeneration_fn w) ([], [], []) of
        ((jsonFiles, htmlFiles, evs), Some err) \<Rightarrow>
          (evs @ [Stderr (''Unable to walk directory '' @ templatePath @ '': '' @ errmsg err)],
           Return (Some err))
      | ((jsonFiles, htmlFiles, evs), None) \<Rightarrow>
          (case generatePages w project arg htmlFiles 0 jsonFiles of
             (evs1, r) \<Rightarrow> (evs @ evs1, r)))"

subsection \<open>main\<close>

text \<open>The loop over the arguments.  When it ends, \<open>main\<close> returns.\<close>

fun main_loop :: "world \<Rightarrow> string \<Rightarrow> string list \<Rightarrow> event list \<times> halt" where
  "main_loop w project [] = ([], Returned)"
| "main_loop w project (arg # args) =
     (case validateProjectStructure w project arg of
        (evs, Some err) \<Rightarrow> (evs, Exited 1)
      | (evs, None) \<Rightarrow>
     (case gopherjsCompilation w project arg of
        (evs1, Panic m) \<Rightarrow> (evs @ evs1, Panicked m)
      | (evs1, Return (Some err)) \<Rightarrow> (evs @ evs1, Exited 1)
      | (evs1, Return None) \<Rightarrow>
     (case pageGeneration w project arg of
        (evs2, Panic m) \<Rightarrow> (evs @ evs1 @ evs2, Panicked m)
      | (evs2, Return (Some err)) \<Rightarrow> (evs @ evs1 @ evs2, Exited 1)
      | (evs2, Return None) \<Rightarrow>
          (case main_loop w project args of (evs3, h) \<Rightarrow> (evs @ evs1 @ evs2 @ evs3, h)))))"

text \<open>
  \<open>main\<close>, started with the package variables \<open>g\<close>.  \<open>os.Args[1:]\<close> panics when \<open>os.Args\<close>
  is empty.
\<close>

definition main :: "globals \<Rightarrow> world \<Rightarrow> event list \<times> halt" where
  "main g w =
     (let project = Getenv w ''GB_PROJECT_DIR'' in
      if project = [] then
        ([], Panicked ''gb extensions should be launched with GB_PROJECT_DIR set'')
      else
        case validateExecutablesInPath w project of
          (evs, Some err) \<Rightarrow> (evs @ [Stderr (errmsg err @ ''\<newline>'')], Exited 1)
        | (evs, None) \<Rightarrow>
            (case os_Args w of
               [] \<Rightarrow> (evs, Panicked ''slice bounds out of range'')
             | prog # args \<Rightarrow>
                 if length args = 0 then (evs @ help_fn, Exited 0)
                 else (case main_loop w project args of (evs1, h) \<Rightarrow> (evs @ evs1, h))))"

section \<open>The earlier revision of the program\<close>

text \<open>
  \<open>src/main.go\<close> has the same \<open>iterateDirs\<close>, \<open>hasMainFunc\<close>, \<open>launchGopherjs\<close>, \<open>help\<close>
  and path functions; its \<open>main\<close> holds the scan and the compilation loops itself and
  calls \<open>os.Exit(1)\<close> where \<open>gopherjsCompilation\<close> returns the error.
\<close>

definition validateGopherjsInPath :: "world \<Rightarrow> string \<Rightarrow> event list \<times> error option" where
  "validateGopherjsInPath w projectDir =
     (let env = os_Environ w @ [''GOPATH='' @ projectDir] in
      ([RunGopherjs [] env], snd (exec_gopherjs w [] env)))"

fun main_go_loop :: "world \<Rightarrow> string \<Rightarrow> string list \<Rightarrow> event list \<times> halt" where
  "main_go_loop w project [] = ([], Returned)"
| "main_go_loop w project (arg # args) =
     (case validateClientPackage w project arg of
        Some err \<Rightarrow>
          ([Stderr (''Unable to find client package in '' @
                    constructClientPackagePath project arg @ ''\<newline>'')], Exited 1)
      | None \<Rightarrow>
     (case validateStaticEnglishDir w project arg of
        Some err \<Rightarrow>
          ([Stderr (''Unable to find static/en/web directory, expected it to be '' @
                    constructStaticEnglishPath project arg @ ''\<newline>'')], Exited 1)
      | None \<Rightarrow>
     (let dir = constructClientPackagePath project arg in
      case iterateDirs w [dir] of
        (evs, Inl err) \<Rightarrow> (evs, Exited 1)
      | (evs, Inr gofiles) \<Rightarrow>
     (case findPages w gofiles [] of
        (evs1, Inl err) \<Rightarrow> (evs @ evs1, Exited 1)
      | (evs1, Inr pages) \<Rightarrow>
     (case compilePages w project arg pages of
        (evs2, Panic m) \<Rightarrow> (evs @ evs1 @ evs2, Panicked m)
      | (evs2, Return (Some err)) \<Rightarrow> (evs @ evs1 @ evs2, Exited 1)
      | (evs2, Return None) \<Rightarrow>
          (case main_go_loop w project args of
             (evs3, h) \<Rightarrow> (evs @ evs1 @ evs2 @ evs3, h)))))))"

definition main_go :: "globals \<Rightarrow> world \<Rightarrow> event list \<times> halt" where
  "main_go g w =
     (let project = Getenv w ''GB_PROJECT_DIR'' in
      if project = [] then
        ([], Panicked ''gb extensions should be launched with GB_PROJECT_DIR set'')
      else
        case validateGopherjsInPath w project of
          (evs, Some err) \<Rightarrow> (evs @ [Stderr (errmsg err @ ''\<newline>'')], Exited 1)
        | (evs, None) \<Rightarrow>
            (case os_Args w of
               [] \<Rightarrow> (evs, Panicked ''slice bounds out of range'')
             | prog # args \<Rightarrow>
                 if length args = 0 then (evs @ help_fn, Exited 0)
                 else (case main_go_loop w project args of (evs1, h) \<Rightarrow> (evs @ evs1, h))))"


section \<open>Notions used in the statements and proofs\<close>

text \<open>
  A name as a directory listing returns it: not empty, not \<open>.\<close> or \<open>..\<close>, without a
  slash.  \<open>descend root ns\<close> is the path of the entry reached from \<open>root\<close> through the
  names \<open>ns\<close>.
\<close>

definition plain :: "string \<Rightarrow> bool" where
  "plain n = (n \<noteq> [] \<and> n \<noteq> ''.'' \<and> n \<noteq> ''..'' \<and> CHR ''/'' \<notin> set n)"

definition descend :: "string \<Rightarrow> string list \<Rightarrow> string" where
  "descend root ns = root @ concat (map (\<lambda>n. CHR ''/'' # n) ns)"

text \<open>Every name in the tree is plain.\<close>

fun validNames :: "fsnode \<Rightarrow> bool"
and validEntries :: "(string \<times> fsnode) list \<Rightarrow> bool"
where
  "validNames (Directory es) = validEntries es"
| "validNames (LstatFails e) = True"
| "validNames NonDir = True"
| "validNames (UnreadableDir e) = True"
| "validEntries [] = True"
| "validEntries ((n, t) # r) = (plain n \<and> validNames t \<and> validEntries r)"

text \<open>Every entry of the tree can be read: no \<open>Lstat\<close> fails, no directory is unreadable.\<close>

fun readable :: "fsnode \<Rightarrow> bool"
and readableEntries :: "(string \<times> fsnode) list \<Rightarrow> bool"
where
  "readable (Directory es) = readableEntries es"
| "readable NonDir = True"
| "readable (LstatFails e) = False"
| "readable (UnreadableDir e) = False"
| "readableEntries [] = True"
| "readableEntries ((n, t) # r) = (readable t \<and> readableEntries r)"

text \<open>
  The entries of a tree that can be read, each with its path and \<open>FileInfo\<close>, a directory
  before its entries.
\<close>

fun entries :: "string \<Rightarrow> string \<Rightarrow> fsnode \<Rightarrow> (string \<times> fileinfo) list"
and entriesIn :: "string \<Rightarrow> (string \<times> fsnode) list \<Rightarrow> (string \<times> fileinfo) list"
where
  "entries path name (Directory es) = (path, \<lparr>Name = name, IsDir = True\<rparr>) # entriesIn path es"
| "entries path name NonDir = [(path, \<lparr>Name = name, IsDir = False\<rparr>)]"
| "entries path name (LstatFails e) = []"
| "entries path name (UnreadableDir e) = []"
| "entriesIn path [] = []"
| "entriesIn path ((n, t) # r) = entries (Join [path, n]) n t @ entriesIn path r"

text \<open>The tree without the contents of its directories named \<open>support\<close>.\<close>

fun prune :: "string \<Rightarrow> fsnode \<Rightarrow> fsnode"
and pruneEntries :: "(string \<times> fsnode) list \<Rightarrow> (string \<times> fsnode) list"
where
  "prune name (Directory es) =
     (if name = ''support'' then Directory [] else Directory (pruneEntries es))"
| "prune name NonDir = NonDir"
| "prune name (LstatFails e) = LstatFails e"
| "prune name (UnreadableDir e) = UnreadableDir e"
| "pruneEntries [] = []"
| "pruneEntries ((n, t) # r) = (n, prune n t) # pruneEntries r"

text \<open>
  The elements that \<open>Clean\<close> has written (the last one first) are never empty or \<open>.\<close>, and
  \<open>..\<close> stands only at the start of a relative path; \<open>render\<close> is the path they spell.
  A normal path is one that \<open>Clean\<close> returns with at least one element.
\<close>

definition elemOK :: "string \<Rightarrow> bool" where
  "elemOK c = (c \<noteq> [] \<and> c \<noteq> ''.'' \<and> CHR ''/'' \<notin> set c)"

fun okStack :: "bool \<Rightarrow> string list \<Rightarrow> bool" where
  "okStack rooted [] = True"
| "okStack rooted (t # r) =
     (elemOK t \<and> (if t = ''..'' then \<not> rooted \<and> (\<forall>x \<in> set r. x = ''..'') else okStack rooted r))"

definition render :: "bool \<Rightarrow> string list \<Rightarrow> string" where
  "render rooted st = (if rooted then CHR ''/'' # joinSlash (rev st) else joinSlash (rev st))"

definition normal :: "string \<Rightarrow> bool" where
  "normal P = (\<exists>rooted st. okStack rooted st \<and> st \<noteq> [] \<and> P = render rooted st)"


text \<open>The paths of the entries whose name ends in \<open>.go\<close>.\<close>

definition goPaths :: "(string \<times> fileinfo) list \<Rightarrow> string list" where
  "goPaths es = map fst (filter (\<lambda>e. HasSuffix (Name (snd e)) ''.go'') es)"

text \<open>
  An entry named \<open>base.json\<close> for which \<open>os.Stat\<close> of \<open>base.html\<close> in its directory
  fails.
\<close>

definition companionMissing :: "world \<Rightarrow> string \<times> fileinfo \<Rightarrow> bool" where
  "companionMissing w e =
     (HasSuffix (Name (snd e)) ''.json'' \<and>
      isl (os_Stat w (Join [Dir (fst e), TrimSuffix (Name (snd e)) ''.json'' @ ''.html''])))"

text \<open>
  \<open>below R p\<close>: the path \<open>p\<close> is reached from \<open>R\<close> through plain names; \<open>sfree R p\<close>:
  moreover none of these names is \<open>support\<close>.  \<open>pairsOK\<close> is the invariant of the lists that
  \<open>pageGeneration\<close> builds, and \<open>visitOK\<close> describes the paths its walk visits: the root, or
  an entry of a directory that \<open>sfree\<close> holds for.
\<close>

definition below :: "string \<Rightarrow> string \<Rightarrow> bool" where
  "below R p = (\<exists>ns. (\<forall>n \<in> set ns. plain n) \<and> p = descend R ns)"

definition sfree :: "string \<Rightarrow> string \<Rightarrow> bool" where
  "sfree R p = (\<exists>ns. (\<forall>n \<in> set ns. plain n \<and> n \<noteq> ''support'') \<and> p = descend R ns)"

definition pairsOK :: "string \<Rightarrow> string list \<times> string list \<times> event list \<Rightarrow> bool" where
  "pairsOK R s = (case s of (jsonFiles, htmlFiles, evs) \<Rightarrow>
     (\<forall>j \<in> set jsonFiles. sfree R j) \<and> (\<forall>h \<in> set htmlFiles. sfree R h) \<and>
     length htmlFiles = length jsonFiles \<and> (\<forall>ev \<in> set evs. \<exists>m. ev = Stderr m))"

definition visitOK :: "string \<Rightarrow> string \<Rightarrow> string \<Rightarrow> bool" where
  "visitOK R path name =
     ((path = R \<and> \<not> HasSuffix name ''.json'') \<or>
      (\<exists>parent. sfree R parent \<and> plain name \<and> path = parent @ CHR ''/'' # name))"


subsection \<open>Example worlds\<close>

text \<open>
  A project \<open>/p\<close> whose package \<open>a\<close> has two client files, one with a \<open>main\<close>, and one
  page \<open>x/page\<close> beside a \<open>support\<close> directory; every command succeeds.
\<close>

definition w_ex :: world where
  "w_ex = \<lparr>
     os_LookupEnv = (\<lambda>k. if k = ''GB_PROJECT_DIR'' then Some ''/p'' else None),
     os_Environ = [],
     os_Args = [''gb-seven5'', ''a''],
     fs_tree = (\<lambda>p.
       if HasSuffix p ''client'' then
         Directory [(''a'', Directory [(''main.go'', NonDir)]),
                    (''b'', Directory [(''util.go'', NonDir)])]
       else
         Directory [(''support'', Directory [(''s.json'', NonDir)]),
                    (''x'', Directory [(''page.html'', NonDir), (''page.json'', NonDir)])]),
     os_Stat = (\<lambda>p. Inr \<lparr>Name = basename p, IsDir = False\<rparr>),
     parser_ParseFile = (\<lambda>p.
       if HasSuffix p ''main.go'' then Inr [GenDecl, FuncDecl None ''main'']
       else Inr [FuncDecl None ''util'']),
     exec_gopherjs = (\<lambda>args env. (''ok'', None)),
     exec_pagegen = (\<lambda>args. Output ''<html>''),
     os_Create = (\<lambda>p. None),
     io_Copy = (\<lambda>p c. None)\<rparr>"

text \<open>
  Variants of \<open>w_ex\<close>: the arguments \<open>a b\<close> with a compiler that fails on the entry point of
  \<open>a\<close>; a client directory that holds only a directory named \<open>d.go\<close>, which the parser
  cannot read; no \<open>.html\<close> entry anywhere; with that, a template tree with nothing
  but \<open>support/s.json\<close>; and one with \<open>a.json\<close> and \<open>b.json\<close>.
\<close>

definition w_fail :: world where
  "w_fail = w_ex\<lparr>
     os_Args := [''gb-seven5'', ''a'', ''b''],
     exec_gopherjs := (\<lambda>args env.
       if args = [''build'', ''-m'', ''-o'', ''/p/src/a/static/en/web/a/main.go'',
                  ''/p/src/a/client/a/main.go'']
       then (''boom'', Some (Error ''exit status 1'')) else ([], None))\<rparr>"

definition w_dirgo :: world where
  "w_dirgo = w_ex\<lparr>
     fs_tree := (\<lambda>p. Directory [(''d.go'', Directory [])]),
     parser_ParseFile := (\<lambda>p. Inl (Error ''is a directory''))\<rparr>"

definition w_nohtml :: world where
  "w_nohtml = w_ex\<lparr>
     os_Stat := (\<lambda>p. if HasSuffix p ''.html'' then Inl (Error ''no such file or directory'')
                       else Inr \<lparr>Name = basename p, IsDir = True\<rparr>)\<rparr>"

definition w_support_only :: world where
  "w_support_only = w_nohtml\<lparr>
     fs_tree := (\<lambda>p. Directory [(''support'', Directory [(''s.json'', NonDir)])])\<rparr>"

definition w_two_unpaired :: world where
  "w_two_unpaired = w_nohtml\<lparr>
     fs_tree := (\<lambda>p. Directory [(''a.json'', NonDir), (''b.json'', NonDir)])\<rparr>"

section \<open>Paths\<close>

subsection \<open>Splitting and joining\<close>

lemma splitSlash_ne: "splitSlash s \<noteq> []"
  by (induction s) (auto split: list.splits)

lemma splitSlash_noslash: "CHR ''/'' \<notin> set s \<Longrightarrow> splitSlash s = [s]"
  by (induction s) auto

lemma splitSlash_append: "splitSlash (a @ CHR ''/'' # b) = splitSlash a @ splitSlash b"
proof (induction a)
  case Nil then show ?case using splitSlash_ne[of b] by (cases "splitSlash b") auto
next
  case (Cons c a)
  then show ?case using splitSlash_ne[of a] by (cases "splitSlash a") auto
qed

lemma splitSlash_elems: "c \<in> set (splitSlash s) \<Longrightarrow> CHR ''/'' \<notin> set c"
  by (induction s arbitrary: c) (auto split: if_splits list.splits)

lemma splitSlash_joinSlash:
  "xs \<noteq> [] \<Longrightarrow> \<forall>c \<in> set xs. CHR ''/'' \<notin> set c \<Longrightarrow> splitSlash (joinSlash xs) = xs"
proof (induction xs rule: joinSlash.induct)
  case 1 then show ?case by simp
next
  case (2 x) then show ?case by (simp add: splitSlash_noslash)
next
  case (3 x y zs)
  then show ?case by (simp add: splitSlash_append splitSlash_noslash)
qed

lemma joinSlash_snoc: "xs \<noteq> [] \<Longrightarrow> joinSlash (xs @ [n]) = joinSlash xs @ CHR ''/'' # n"
  by (induction xs rule: joinSlash.induct) auto

lemma joinSlash_append: "xs \<noteq> [] \<Longrightarrow> joinSlash (xs @ ys) = joinSlash xs @ concat (map (\<lambda>n. CHR ''/'' # n) ys)"
proof (induction ys rule: rev_induct)
  case Nil then show ?case by simp
next
  case (snoc y ys)
  have "joinSlash (xs @ ys @ [y]) = joinSlash ((xs @ ys) @ [y])" by simp
  also have "\<dots> = joinSlash (xs @ ys) @ CHR ''/'' # y" using snoc.prems by (intro joinSlash_snoc) simp
  finally show ?case using snoc by simp
qed

lemma okStack_dots: "\<not> rooted \<Longrightarrow> \<forall>x \<in> set r. x = ''..'' \<Longrightarrow> okStack rooted r"
  by (induction r) (auto simp: elemOK_def)

lemma okStack_tl: "okStack rooted (t # r) \<Longrightarrow> okStack rooted r"
  by (auto simp: okStack_dots split: if_splits)

lemma okStack_step: "okStack rooted st \<Longrightarrow> CHR ''/'' \<notin> set c \<Longrightarrow> okStack rooted (cleanStep rooted st c)"
  by (cases st) (auto simp: cleanStep_def elemOK_def okStack_dots split: if_splits)

lemma okStack_foldl:
  "okStack rooted st \<Longrightarrow> \<forall>c \<in> set cs. CHR ''/'' \<notin> set c \<Longrightarrow> okStack rooted (foldl (cleanStep rooted) st cs)"
  by (induction cs arbitrary: st) (auto simp: okStack_step)

lemma cleanStep_push: "okStack rooted (t # r) \<Longrightarrow> cleanStep rooted r t = t # r"
  by (cases r) (auto simp: cleanStep_def elemOK_def split: if_splits)

lemma foldl_okStack: "okStack rooted st \<Longrightarrow> foldl (cleanStep rooted) [] (rev st) = st"
proof (induction st)
  case Nil then show ?case by simp
next
  case (Cons t r)
  then have r: "foldl (cleanStep rooted) [] (rev r) = r" using okStack_tl by blast
  have "foldl (cleanStep rooted) [] (rev (t # r)) = cleanStep rooted r t" by (simp add: r)
  then show ?case using cleanStep_push[OF Cons.prems] by simp
qed

lemma foldl_plain:
  "\<forall>c \<in> set cs. c = [] \<or> plain c \<Longrightarrow>
   foldl (cleanStep rooted) st cs = rev (filter (\<lambda>c. c \<noteq> []) cs) @ st"
  by (induction cs arbitrary: st) (auto simp: cleanStep_def plain_def)


lemma plain_noslash: "plain c \<Longrightarrow> CHR ''/'' \<notin> set c"
  by (simp add: plain_def)

lemma plain_ne: "plain c \<Longrightarrow> c \<noteq> []"
  by (simp add: plain_def)

lemma plain_elemOK: "plain c \<Longrightarrow> elemOK c \<and> c \<noteq> ''..''"
  by (simp add: plain_def elemOK_def)

lemma filter_plain: "\<forall>n \<in> set ns. plain n \<Longrightarrow> filter (\<lambda>c. c \<noteq> []) ns = ns"
  using plain_ne by (induction ns) auto

lemma joinSlash_Cons_ne: "x \<noteq> [] \<Longrightarrow> joinSlash (x # xs) \<noteq> [] \<and> hd (joinSlash (x # xs)) = hd x"
  by (cases xs) auto

lemma okStack_last_elemOK: "okStack rooted st \<Longrightarrow> x \<in> set st \<Longrightarrow> elemOK x"
proof (induction st)
  case Nil then show ?case by simp
next
  case (Cons t r)
  have t: "elemOK t" using Cons.prems(1) by simp
  have r: "okStack rooted r" using Cons.prems(1) by (rule okStack_tl)
  show ?case using Cons.prems(2) Cons.IH[OF r] t by auto
qed

lemma render_hd:
  assumes "okStack rooted st" "st \<noteq> []"
  shows "render rooted st \<noteq> [] \<and> (hd (render rooted st) = CHR ''/'') = rooted"
proof (cases rooted)
  case True then show ?thesis by (simp add: render_def)
next
  case False
  obtain x xs where r: "rev st = x # xs" using assms(2) by (cases "rev st") auto
  have "set st = insert x (set xs)" using r by (metis list.simps(15) set_rev)
  then have "x \<in> set st" by simp
  then have ok: "elemOK x" using assms(1) okStack_last_elemOK by blast
  then have xne: "x \<noteq> []" and xs: "CHR ''/'' \<notin> set x" by (auto simp: elemOK_def)
  have "x \<noteq> []" "hd x \<noteq> CHR ''/''" using xne xs by (simp, metis hd_in_set)
  then show ?thesis using False r joinSlash_Cons_ne[of x xs] by (simp add: render_def)
qed

lemma splitSlash_render:
  assumes "okStack rooted st" "st \<noteq> []"
  shows "foldl (cleanStep rooted) [] (splitSlash (render rooted st)) = st"
proof -
  have ns: "\<forall>c \<in> set (rev st). CHR ''/'' \<notin> set c"
    using assms(1) okStack_last_elemOK by (auto simp: elemOK_def)
  have sp: "splitSlash (joinSlash (rev st)) = rev st"
    using assms(2) ns by (intro splitSlash_joinSlash) auto
  have e: "\<And>b. cleanStep b [] [] = []" by (simp add: cleanStep_def)
  show ?thesis
    using foldl_okStack[OF assms(1)] by (cases rooted) (simp_all add: render_def sp e)
qed

lemma okStack_push_plain:
  "okStack rooted st \<Longrightarrow> \<forall>c \<in> set fs. plain c \<Longrightarrow> okStack rooted (rev fs @ st)"
proof (induction fs arbitrary: st)
  case Nil then show ?case by simp
next
  case (Cons a fs)
  have "okStack rooted (a # st)" using Cons.prems plain_elemOK[of a] by simp
  then have "okStack rooted (rev fs @ a # st)" using Cons.prems(2) by (intro Cons.IH) auto
  then show ?case by simp
qed

lemma render_append:
  "st \<noteq> [] \<Longrightarrow> render rooted (rev fs @ st) = render rooted st @ concat (map (\<lambda>n. CHR ''/'' # n) fs)"
  by (simp add: render_def joinSlash_append)

lemma Clean_extend:
  assumes "normal P" "cs \<noteq> []" "\<forall>c \<in> set cs. c = [] \<or> plain c"
  shows "Clean (P @ CHR ''/'' # joinSlash cs) = descend P (filter (\<lambda>c. c \<noteq> []) cs)"
    and "normal (descend P (filter (\<lambda>c. c \<noteq> []) cs))"
proof -
  obtain rooted st where st: "okStack rooted st" "st \<noteq> []" "P = render rooted st"
    using assms(1) by (auto simp: normal_def)
  let ?fs = "filter (\<lambda>c. c \<noteq> []) cs"
  have hdP: "P \<noteq> []" "(hd P = CHR ''/'') = rooted" using render_hd[OF st(1,2)] st(3) by auto
  have ns: "\<forall>c \<in> set cs. CHR ''/'' \<notin> set c" using assms(3) plain_noslash by fastforce
  have sp: "splitSlash (P @ CHR ''/'' # joinSlash cs) = splitSlash P @ cs"
    using splitSlash_joinSlash[OF assms(2) ns] by (simp add: splitSlash_append)
  have "foldl (cleanStep rooted) [] (splitSlash P) = st"
    using splitSlash_render[OF st(1,2)] st(3) by simp
  then have f: "foldl (cleanStep rooted) [] (splitSlash (P @ CHR ''/'' # joinSlash cs)) = rev ?fs @ st"
    unfolding sp by (simp add: foldl_plain[OF assms(3)])
  have hd2: "(hd (P @ CHR ''/'' # joinSlash cs) = CHR ''/'') = rooted" using hdP by simp
  have "Clean (P @ CHR ''/'' # joinSlash cs) = render rooted (rev ?fs @ st)"
    unfolding Clean_def Let_def hd2 f using st(2) by (simp add: render_def)
  then show "Clean (P @ CHR ''/'' # joinSlash cs) = descend P ?fs"
    using st by (simp add: render_append descend_def)
  have "okStack rooted (rev ?fs @ st)" using st(1) assms(3) by (intro okStack_push_plain) auto
  moreover have "descend P ?fs = render rooted (rev ?fs @ st)" using st by (simp add: render_append descend_def)
  ultimately show "normal (descend P ?fs)" using st(2) unfolding normal_def by blast
qed

lemma Join2: "P \<noteq> [] \<Longrightarrow> Join [P, x] = Clean (P @ CHR ''/'' # x)"
  by (simp add: Join_def)

lemma normal_ne: "normal P \<Longrightarrow> P \<noteq> []"
  using render_hd by (auto simp: normal_def)

lemma normal_descend: "normal P \<Longrightarrow> \<forall>n \<in> set ns. plain n \<Longrightarrow> normal (descend P ns)"
proof (cases ns)
  case Nil then show "normal P \<Longrightarrow> normal (descend P ns)" by (simp add: descend_def)
next
  case (Cons a list)
  assume a: "normal P" "\<forall>n \<in> set ns. plain n"
  then have "filter (\<lambda>c. c \<noteq> []) ns = ns" by (intro filter_plain)
  then show "normal (descend P ns)" using Clean_extend(2)[of P ns] a Cons by auto
qed

lemma Join_name: 
  assumes "normal P" "plain n"
  shows "Join [P, n] = P @ CHR ''/'' # n"
  using Clean_extend(1)[of P "[n]"] assms normal_ne[OF assms(1)] plain_ne[OF assms(2)]
  by (simp add: Join2 descend_def)

lemma descend_snoc: "descend P (ns @ [n]) = descend P ns @ CHR ''/'' # n"
  by (simp add: descend_def)

lemma descend_descend: "descend (descend P ns) ms = descend P (ns @ ms)"
  by (simp add: descend_def)

lemma Join_descend:
  assumes "normal P" "\<forall>n \<in> set ns. plain n" "plain n"
  shows "Join [descend P ns, n] = descend P (ns @ [n])"
  using Join_name[OF normal_descend[OF assms(1,2)] assms(3)] by (simp add: descend_snoc)

lemma concat_slash: "ns \<noteq> [] \<Longrightarrow> concat (map (\<lambda>n. CHR ''/'' # n) ns) = CHR ''/'' # joinSlash ns"
  by (induction ns rule: joinSlash.induct) auto

lemma Join_suffix:
  assumes "normal P" "\<forall>n \<in> set ns. plain n"
  shows "Join [P, concat (map (\<lambda>n. CHR ''/'' # n) ns)] = descend P ns"
proof (cases ns)
  case Nil
  then show ?thesis using Clean_extend(1)[of P "[[]]"] assms normal_ne[OF assms(1)]
    by (simp add: Join2)
next
  case (Cons a list)
  have f: "filter (\<lambda>c. c \<noteq> []) ns = ns" using assms(2) by (intro filter_plain)
  have "Join [P, concat (map (\<lambda>n. CHR ''/'' # n) ns)] = Clean (P @ CHR ''/'' # joinSlash ([] # ns))"
    using Cons normal_ne[OF assms(1)] concat_slash[of ns] by (simp add: Join2)
  also have "\<dots> = descend P ns" using Clean_extend(1)[of P "[] # ns"] assms f by simp
  finally show ?thesis .
qed

lemma HasPrefix_descend: "HasPrefix (descend P ns) P"
  by (simp add: HasPrefix_def descend_def)

lemma TrimPrefix_descend: "TrimPrefix (descend P ns) P = concat (map (\<lambda>n. CHR ''/'' # n) ns)"
  by (simp add: TrimPrefix_def HasPrefix_def descend_def)

lemma Dir_child:
  assumes "normal P" "CHR ''/'' \<notin> set n"
  shows "Dir (P @ CHR ''/'' # n) = P"
proof -
  have "dropWhile (\<lambda>c. c \<noteq> CHR ''/'') (rev n @ CHR ''/'' # rev P) = dropWhile (\<lambda>c. c \<noteq> CHR ''/'') (CHR ''/'' # rev P)"
    using assms(2) by (intro dropWhile_append2) auto
  then have "rev (dropWhile (\<lambda>c. c \<noteq> CHR ''/'') (rev (P @ CHR ''/'' # n))) = P @ [CHR ''/'']"
    by simp
  then show ?thesis using Clean_extend(1)[of P "[[]]"] assms(1) by (simp add: Dir_def descend_def)
qed

lemma normal_Clean_snoc:
  assumes "plain c"
  shows "normal (Clean (x @ CHR ''/'' # c))"
    and "\<exists>s. Clean (x @ CHR ''/'' # c) = s @ c \<and> (s = [] \<or> last s = CHR ''/'')"
proof -
  define p where "p = x @ CHR ''/'' # c"
  define rooted where "rooted = (hd p = CHR ''/'')"
  define st where "st = foldl (cleanStep rooted) [] (splitSlash x)"
  have c: "CHR ''/'' \<notin> set c" "c \<noteq> []" "c \<noteq> ''.''" "c \<noteq> ''..''" using assms by (auto simp: plain_def)
  have sp: "splitSlash p = splitSlash x @ [c]"
    using c(1) by (simp add: p_def splitSlash_append splitSlash_noslash)
  have ok: "okStack rooted st" unfolding st_def by (intro okStack_foldl) (auto simp: splitSlash_elems)
  have "cleanStep rooted st c = c # st" using c by (simp add: cleanStep_def)
  then have f: "foldl (cleanStep rooted) [] (splitSlash p) = c # st"
    by (simp add: sp st_def)
  have pne: "p \<noteq> []" by (simp add: p_def)
  have "Clean p = (if rooted then CHR ''/'' # joinSlash (rev (c # st)) else joinSlash (rev (c # st)))"
    unfolding Clean_def Let_def rooted_def[symmetric] f using pne by simp
  then have cl: "Clean p = render rooted (c # st)" by (simp add: render_def)
  have ok2: "okStack rooted (c # st)" using ok c by (simp add: elemOK_def)
  show "normal (Clean (x @ CHR ''/'' # c))" unfolding normal_def p_def[symmetric] using cl ok2 by blast
  show "\<exists>s. Clean (x @ CHR ''/'' # c) = s @ c \<and> (s = [] \<or> last s = CHR ''/'')"
  proof (cases "st = []")
    case True
    then have e: "Clean p = (if rooted then [CHR ''/''] else []) @ c" using cl by (simp add: render_def)
    have "(if rooted then [CHR ''/''] else []) = [] \<or> last (if rooted then [CHR ''/''] else []) = CHR ''/''"
      by simp
    then show ?thesis using e unfolding p_def by blast
  next
    case False
    then have "joinSlash (rev st @ [c]) = (joinSlash (rev st) @ [CHR ''/'']) @ c"
      by (simp add: joinSlash_snoc)
    then have "Clean p = ((if rooted then [CHR ''/''] else []) @ joinSlash (rev st) @ [CHR ''/'']) @ c"
      using cl by (simp add: render_def)
    moreover have "last ((if rooted then [CHR ''/''] else []) @ joinSlash (rev st) @ [CHR ''/'']) = CHR ''/''"
      by simp
    ultimately show ?thesis unfolding p_def by blast
  qed
qed

lemma basename_tail:
  assumes "c \<noteq> []" "CHR ''/'' \<notin> set c" "s = [] \<or> last s = CHR ''/''"
  shows "basename (s @ c) = c"
proof -
  obtain d ds where r: "rev c = d # ds" using assms(1) by (cases "rev c") auto
  have "set c = insert d (set ds)" using r by (metis list.simps(15) set_rev)
  then have d: "d \<noteq> CHR ''/''" "CHR ''/'' \<notin> set ds" using assms(2) by auto
  have st: "stripSlashes (d # ds @ rev s) = d # ds @ rev s" using d(1) by (cases "ds @ rev s") auto
  have tw: "takeWhile (\<lambda>e. e \<noteq> CHR ''/'') (ds @ rev s) = ds"
  proof (cases s rule: rev_cases)
    case Nil then show ?thesis using d(2) by (auto simp: takeWhile_eq_all_conv) 
  next
    case (snoc ys y)
    then have "y = CHR ''/''" using assms(3) by simp
    then show ?thesis using d(2) snoc by (auto simp: takeWhile_tail)
  qed
  have "c = rev (d # ds)" using r by (metis rev_rev_ident)
  then show ?thesis using r by (simp add: basename_def st tw)
qed

lemma basename_Clean_snoc:
  assumes "plain c"
  shows "basename (Clean (x @ CHR ''/'' # c)) = c"
proof -
  obtain s where s: "Clean (x @ CHR ''/'' # c) = s @ c" "s = [] \<or> last s = CHR ''/''"
    using normal_Clean_snoc(2)[OF assms] by blast
  show ?thesis unfolding s(1) using plain_ne[OF assms] plain_noslash[OF assms] s(2) by (intro basename_tail)
qed

section \<open>The walks\<close>

subsection \<open>The source scan on a readable tree\<close>


lemma goPaths_simps [simp]:
  "goPaths [] = []"
  "goPaths ((p, i) # es) = (if HasSuffix (Name i) ''.go'' then p # goPaths es else goPaths es)"
  "goPaths (xs @ ys) = goPaths xs @ goPaths ys"
  by (simp_all add: goPaths_def)

lemma walk_iterateDirs_readable:
  "fn = iterateDirs_fn \<Longrightarrow> readable t \<Longrightarrow>
     walk fn path name t s = ((fst s @ goPaths (entries path name t), snd s), None)"
  "fn = iterateDirs_fn \<Longrightarrow> readableEntries es \<Longrightarrow>
     walkNames fn path es s = ((fst s @ goPaths (entriesIn path es), snd s), None)"
proof (induction fn path name t s and fn path es s rule: walk_walkNames.induct)
  case (1 fn path name e s) then show ?case by simp
next
  case (2 fn path name s) then show ?case by (cases s) (simp add: iterateDirs_fn_def)
next
  case (3 fn path name e s) then show ?case by simp
next
  case (4 fn path name entries s)
  obtain g evs where s: "s = (g, evs)" by (cases s)
  define s1 where "s1 = (if HasSuffix name ''.go'' then (g @ [path], evs) else (g, evs))"
  have f: "fn path (Visit \<lparr>Name = name, IsDir = True\<rparr>) s = (s1, None)"
    using 4(2) by (simp add: s s1_def iterateDirs_fn_def)
  have "walkNames fn path entries s1 = ((fst s1 @ goPaths (entriesIn path entries), snd s1), None)"
    using 4(1)[OF f[symmetric] refl] 4(2,3) by simp
  then show ?case using f by (simp add: s s1_def)
next
  case (5 fn path s) then show ?case by simp
next
  case (6 fn path name node rest s)
  let ?s1 = "(fst s @ goPaths (entries (Join [path, name]) name node), snd s)"
  have w: "walk fn (Join [path, name]) name node s = (?s1, None)" using 6 by simp
  have "walkNames fn path rest ?s1 = ((fst ?s1 @ goPaths (entriesIn path rest), snd ?s1), None)"
    using 6(2)[OF w[symmetric] refl] 6(4,5) by simp
  then show ?case using w by simp
qed

subsection \<open>Paths below the root\<close>


lemma below_root: "below R R"
  unfolding below_def by (rule exI[of _ "[]"]) (simp add: descend_def)

lemma below_Join: "normal R \<Longrightarrow> below R p \<Longrightarrow> plain n \<Longrightarrow> below R (Join [p, n])"
proof -
  assume a: "normal R" "below R p" "plain n"
  then obtain ns where ns: "\<forall>n \<in> set ns. plain n" "p = descend R ns" by (auto simp: below_def)
  have "Join [p, n] = descend R (ns @ [n])" using Join_descend[OF a(1) ns(1) a(3)] ns(2) by simp
  moreover have "\<forall>m \<in> set (ns @ [n]). plain m" using ns(1) a(3) by simp
  ultimately show ?thesis unfolding below_def by blast
qed

lemma walk_invariant:
  "(\<forall>p v s s' r. below R p \<longrightarrow> Inv s \<longrightarrow> fn p v s = (s', r) \<longrightarrow> Inv s') \<Longrightarrow>
   normal R \<Longrightarrow> below R path \<Longrightarrow> validNames t \<Longrightarrow> Inv s \<Longrightarrow>
     Inv (fst (walk fn path name t s))"
  "(\<forall>p v s s' r. below R p \<longrightarrow> Inv s \<longrightarrow> fn p v s = (s', r) \<longrightarrow> Inv s') \<Longrightarrow>
   normal R \<Longrightarrow> below R path \<Longrightarrow> validEntries es \<Longrightarrow> Inv s \<Longrightarrow>
     Inv (fst (walkNames fn path es s))"
proof (induction fn path name t s and fn path es s rule: walk_walkNames.induct)
  case (1 fn path name e s)
  obtain s1 r where f: "fn path (VisitErr None e) s = (s1, r)" by fastforce
  have "Inv s1" using 1(1,3,5) f by blast
  then show ?case using f by simp
next
  case (2 fn path name s)
  obtain s1 r where f: "fn path (Visit \<lparr>Name = name, IsDir = False\<rparr>) s = (s1, r)" by fastforce
  have "Inv s1" using 2(1,3,5) f by blast
  then show ?case using f by simp
next
  case (3 fn path name e s)
  obtain s1 r where f: "fn path (VisitErr (Some \<lparr>Name = name, IsDir = True\<rparr>) e) s = (s1, r)"
    by fastforce
  have "Inv s1" using 3(1,3,5) f by blast
  then show ?case using f by simp
next
  case (4 fn path name entries s)
  obtain s1 r where f: "fn path (Visit \<lparr>Name = name, IsDir = True\<rparr>) s = (s1, r)" by fastforce
  have i1: "Inv s1" using 4(2,4,6) f by blast
  show ?case
  proof (cases r)
    case None
    then show ?thesis using 4(1)[OF f[symmetric] None 4(2,3,4) _ i1] 4(5) f by simp
  next
    case (Some a)
    then show ?thesis using f i1 by simp
  qed
next
  case (5 fn path s)
  then show ?case by simp
next
  case (6 fn path name node rest s)
  obtain s1 r where w: "walk fn (Join [path, name]) name node s = (s1, r)" by fastforce
  have pn: "plain name" "validNames node" "validEntries rest" using 6(7) by auto
  have b: "below R (Join [path, name])" using below_Join[OF 6(5,6) pn(1)] .
  have i1: "Inv s1" using 6(1)[OF 6(4,5) b pn(2) 6(8)] w by simp
  show ?case
  proof (cases r)
    case None
    then show ?thesis using 6(2)[OF w[symmetric] None 6(4,5,6) pn(3) i1] w by simp
  next
    case (Some err)
    show ?thesis
    proof (cases "skippable node \<and> err = SkipDir")
      case True
      then show ?thesis using 6(3)[OF w[symmetric] Some True 6(4,5,6) pn(3) i1] w Some by simp
    next
      case False
      then show ?thesis using w Some i1 by auto
    qed
  qed
qed

lemma client_form: "\<exists>x. constructClientPackagePath project arg = Clean (x @ CHR ''/'' # ''client'')"
proof (cases "project = []")
  case True
  then have "constructClientPackagePath project arg = Clean ((''src/'' @ arg) @ CHR ''/'' # ''client'')"
    by (simp add: constructClientPackagePath_def Join_def)
  then show ?thesis by blast
next
  case False
  then have "constructClientPackagePath project arg =
      Clean ((project @ ''/src/'' @ arg) @ CHR ''/'' # ''client'')"
    by (simp add: constructClientPackagePath_def Join_def)
  then show ?thesis by blast
qed

lemma static_form: "\<exists>x. constructStaticEnglishPath project arg = Clean (x @ CHR ''/'' # ''web'')"
proof (cases "project = []")
  case True
  then have "constructStaticEnglishPath project arg =
      Clean ((''src/'' @ arg @ ''/static/en'') @ CHR ''/'' # ''web'')"
    by (simp add: constructStaticEnglishPath_def Join_def)
  then show ?thesis by blast
next
  case False
  then have "constructStaticEnglishPath project arg =
      Clean ((project @ ''/src/'' @ arg @ ''/static/en'') @ CHR ''/'' # ''web'')"
    by (simp add: constructStaticEnglishPath_def Join_def)
  then show ?thesis by blast
qed

lemma templates_form: "\<exists>x. constructTemplatesPath project arg = Clean (x @ CHR ''/'' # ''template'')"
proof (cases "project = []")
  case True
  then have "constructTemplatesPath project arg =
      Clean ((''src/'' @ arg @ ''/pages'') @ CHR ''/'' # ''template'')"
    by (simp add: constructTemplatesPath_def Join_def)
  then show ?thesis by blast
next
  case False
  then have "constructTemplatesPath project arg =
      Clean ((project @ ''/src/'' @ arg @ ''/pages'') @ CHR ''/'' # ''template'')"
    by (simp add: constructTemplatesPath_def Join_def)
  then show ?thesis by blast
qed

lemma plain_client: "plain ''client''" and plain_web: "plain ''web''"
  and plain_template: "plain ''template''"
  by (simp_all add: plain_def)

lemma normal_client: "normal (constructClientPackagePath project arg)"
  using client_form[of project arg] normal_Clean_snoc(1)[OF plain_client] by auto

lemma normal_static: "normal (constructStaticEnglishPath project arg)"
  using static_form[of project arg] normal_Clean_snoc(1)[OF plain_web] by auto

lemma normal_templates: "normal (constructTemplatesPath project arg)"
  using templates_form[of project arg] normal_Clean_snoc(1)[OF plain_template] by auto

lemma basename_templates: "basename (constructTemplatesPath project arg) = ''template''"
  using templates_form[of project arg] basename_Clean_snoc[OF plain_template] by auto

lemma basename_client: "basename (constructClientPackagePath project arg) = ''client''"
  using client_form[of project arg] basename_Clean_snoc[OF plain_client] by auto

lemma below_roundtrip:
  assumes "normal R" "normal O'" "below R e"
  shows "HasPrefix e R" "Join [O', TrimPrefix e R] = O' @ TrimPrefix e R"
    "HasPrefix (Join [O', TrimPrefix e R]) O'"
    "Join [R, TrimPrefix (Join [O', TrimPrefix e R]) O'] = e"
proof -
  obtain ns where ns: "\<forall>n \<in> set ns. plain n" "e = descend R ns" using assms(3) by (auto simp: below_def)
  show "HasPrefix e R" by (simp add: ns(2) HasPrefix_descend)
  have t: "TrimPrefix e R = concat (map (\<lambda>n. CHR ''/'' # n) ns)" by (simp add: ns(2) TrimPrefix_descend)
  have j: "Join [O', TrimPrefix e R] = descend O' ns" unfolding t using Join_suffix[OF assms(2) ns(1)] .
  show "Join [O', TrimPrefix e R] = O' @ TrimPrefix e R" using j t by (simp add: descend_def)
  show "HasPrefix (Join [O', TrimPrefix e R]) O'" unfolding j by (rule HasPrefix_descend)
  show "Join [R, TrimPrefix (Join [O', TrimPrefix e R]) O'] = e"
    unfolding j TrimPrefix_descend using Join_suffix[OF assms(1) ns(1)] ns(2) by simp
qed

lemma iterateDirs_fn_below:
  "\<forall>x \<in> set (fst s). below R x \<Longrightarrow> below R p \<Longrightarrow> iterateDirs_fn p v s = (s', r) \<Longrightarrow>
   \<forall>x \<in> set (fst s'). below R x"
  by (cases s; cases v) (auto simp: iterateDirs_fn_def split: if_splits)

lemma Walk_iterateDirs_below:
  assumes "normal R" "validNames (fs_tree w R)" "\<forall>x \<in> set (fst s). below R x"
  shows "\<forall>x \<in> set (fst (fst (Walk w R iterateDirs_fn s))). below R x"
proof -
  have "(\<lambda>s. \<forall>x \<in> set (fst s). below R x) (fst (walk iterateDirs_fn R (basename R) (fs_tree w R) s))"
    by (rule walk_invariant(1)[where R = R]) (use assms below_root iterateDirs_fn_below in blast)+
  then show ?thesis by (simp add: Walk_def split: prod.splits)
qed

lemma iterateDirs_below:
  assumes "normal R" "validNames (fs_tree w R)" "iterateDirs w [R] = (evs, Inr gofiles)"
  shows "\<forall>g \<in> set gofiles. below R g"
proof -
  have "\<forall>x \<in> set (fst (fst (Walk w R iterateDirs_fn ([], [])))). below R x"
    using Walk_iterateDirs_below[OF assms(1,2), of "([], [])"] by simp
  then show ?thesis using assms(3)
    by (auto simp: iterateDirs_def split: prod.splits option.splits)
qed

lemma findPages_subset:
  "findPages w gofiles pages = (evs, Inr pages') \<Longrightarrow> set pages' \<subseteq> set pages \<union> set gofiles"
proof (induction gofiles arbitrary: pages evs)
  case Nil then show ?case by simp
next
  case (Cons g gs)
  then show ?case
    by (fastforce split: prod.splits sum.splits if_splits)
qed

subsection \<open>The dispatch loops\<close>

lemma compilePages_no_skip:
  "compilePages w project arg pages = (evs, Return None) \<Longrightarrow>
   \<forall>p \<in> set pages. HasPrefix p (constructClientPackagePath project arg)"
  by (induction pages arbitrary: evs)
     (auto simp: Let_def split: if_splits prod.splits option.splits)

lemma compilePages_no_panic:
  "\<forall>p \<in> set pages. HasPrefix p (constructClientPackagePath project arg) \<Longrightarrow>
   compilePages w project arg pages \<noteq> (evs, Panic m)"
  by (induction pages arbitrary: evs)
     (auto simp: Let_def split: if_splits prod.splits option.splits)

lemma generatePages_no_skip:
  "generatePages w project arg htmlFiles i jsonFiles = (evs, Return None) \<Longrightarrow>
   \<forall>j \<in> set jsonFiles. HasPrefix j (constructTemplatesPath project arg)"
  by (induction jsonFiles arbitrary: i evs)
     (auto simp: Let_def split: if_splits prod.splits option.splits)

lemma generatePages_no_prefix_panic:
  "\<forall>j \<in> set jsonFiles. HasPrefix j (constructTemplatesPath project arg) \<Longrightarrow>
   generatePages w project arg htmlFiles i jsonFiles \<noteq>
     (evs, Panic (''unable to understand json path '' @ j' @ '' in template dir '' @ T))"
  by (induction jsonFiles arbitrary: i evs)
     (auto simp: Let_def split: if_splits prod.splits option.splits)

lemma generatePages_no_panic:
  "\<forall>j \<in> set jsonFiles. HasPrefix j (constructTemplatesPath project arg) \<Longrightarrow>
   i + length jsonFiles \<le> length htmlFiles \<Longrightarrow>
   generatePages w project arg htmlFiles i jsonFiles \<noteq> (evs, Panic m)"
  by (induction jsonFiles arbitrary: i evs)
     (auto simp: Let_def split: if_splits prod.splits option.splits)

lemma gopherjsCompilation_no_panic:
  assumes "validNames (fs_tree w (constructClientPackagePath project arg))"
  shows "snd (gopherjsCompilation w project arg) \<noteq> Panic m"
proof -
  let ?R = "constructClientPackagePath project arg"
  show ?thesis
  proof (cases "iterateDirs w [?R]")
    case (Pair evs r)
    show ?thesis
    proof (cases r)
      case (Inl e) then show ?thesis using Pair by (simp add: gopherjsCompilation_def)
    next
      case (Inr gofiles)
      have b: "\<forall>g \<in> set gofiles. below ?R g"
        using iterateDirs_below[OF normal_client assms] Pair Inr by simp
      show ?thesis
      proof (cases "findPages w gofiles []")
        case (Pair evs1 r1)
        show ?thesis
        proof (cases r1)
          case (Inl e)
          then show ?thesis using \<open>iterateDirs w [?R] = (evs, r)\<close> Inr Pair
            by (simp add: gopherjsCompilation_def)
        next
          case (Inr pages)
          have "set pages \<subseteq> set gofiles" using findPages_subset Pair Inr by fastforce
          then have "\<forall>p \<in> set pages. HasPrefix p ?R"
            using b below_roundtrip(1)[OF normal_client normal_static] by blast
          then have "\<And>evs2. compilePages w project arg pages \<noteq> (evs2, Panic m)"
            by (rule compilePages_no_panic)
          then show ?thesis using \<open>iterateDirs w [?R] = (evs, r)\<close> \<open>r = Inr gofiles\<close> Pair Inr
            by (auto simp: gopherjsCompilation_def split: prod.splits)
        qed
      qed
    qed
  qed
qed

subsection \<open>The template walk\<close>



lemma sfree_root: "sfree R R"
  unfolding sfree_def by (rule exI[of _ "[]"]) (simp add: descend_def)

lemma sfree_below: "sfree R p \<Longrightarrow> below R p"
  unfolding sfree_def below_def by blast

lemma below_normal: "normal R \<Longrightarrow> below R p \<Longrightarrow> normal p"
  unfolding below_def using normal_descend by blast

lemma sfree_child:
  assumes "normal R" "sfree R p" "plain n" "n \<noteq> ''support''"
  shows "sfree R (p @ CHR ''/'' # n)"
proof -
  obtain ns where ns: "\<forall>n \<in> set ns. plain n \<and> n \<noteq> ''support''" "p = descend R ns"
    using assms(2) by (auto simp: sfree_def)
  have "p @ CHR ''/'' # n = descend R (ns @ [n])" by (simp add: ns(2) descend_snoc)
  moreover have "\<forall>m \<in> set (ns @ [n]). plain m \<and> m \<noteq> ''support''" using ns(1) assms(3,4) by simp
  ultimately show ?thesis unfolding sfree_def by blast
qed

lemma HasSuffix_json_not_support: "HasSuffix n ''.json'' \<Longrightarrow> n \<noteq> ''support''"
  by (auto simp: HasSuffix_def)

lemma plain_html:
  assumes "plain n"
  shows "plain (TrimSuffix n ''.json'' @ ''.html'')" "TrimSuffix n ''.json'' @ ''.html'' \<noteq> ''support''"
proof -
  have "set (TrimSuffix n ''.json'') \<subseteq> set n" by (auto simp: TrimSuffix_def dest: in_set_takeD)
  then have "CHR ''/'' \<notin> set (TrimSuffix n ''.json'')" using plain_noslash[OF assms] by blast
  then show "plain (TrimSuffix n ''.json'' @ ''.html'')"
    by (cases "TrimSuffix n ''.json''") (auto simp: plain_def)
  show "TrimSuffix n ''.json'' @ ''.html'' \<noteq> ''support''"
  proof
    assume "TrimSuffix n ''.json'' @ ''.html'' = ''support''"
    then have "last (TrimSuffix n ''.json'' @ ''.html'') = last ''support''" by (rule arg_cong)
    then show False by simp
  qed
qed



lemma pageGeneration_fn_pairsOK:
  assumes "normal R" "visitOK R path name" "pairsOK R s"
    "pageGeneration_fn w path (Visit \<lparr>Name = name, IsDir = d\<rparr>) s = (s', r)"
  shows "pairsOK R s'"
proof -
  obtain js hs evs where s: "s = (js, hs, evs)" by (cases s)
  show ?thesis
  proof (cases "HasSuffix name ''.json''")
    case False
    then show ?thesis using assms(3,4) by (auto simp: s pageGeneration_fn_def split: if_splits)
  next
    case True
    then obtain parent where p: "sfree R parent" "plain name" "path = parent @ CHR ''/'' # name"
      using assms(2) by (auto simp: visitOK_def)
    have np: "normal parent" using below_normal[OF assms(1) sfree_below[OF p(1)]] .
    have ns: "name \<noteq> ''support''" using True by (rule HasSuffix_json_not_support)
    have d: "Dir path = parent" unfolding p(3) using Dir_child[OF np plain_noslash[OF p(2)]] .
    have h: "Join [Dir path, TrimSuffix name ''.json'' @ ''.html''] =
               parent @ CHR ''/'' # (TrimSuffix name ''.json'' @ ''.html'')"
      unfolding d using Join_name[OF np plain_html(1)[OF p(2)]] .
    have sj: "sfree R path" unfolding p(3) using sfree_child[OF assms(1) p(1,2) ns] .
    have sh: "sfree R (Join [Dir path, TrimSuffix name ''.json'' @ ''.html''])"
      unfolding h using sfree_child[OF assms(1) p(1) plain_html[OF p(2)]] .
    show ?thesis using assms(3,4) True ns sj sh
      by (auto simp: s pageGeneration_fn_def pairsOK_def Let_def split: sum.splits)
  qed
qed

lemma pageGeneration_fn_err_pairsOK:
  "pairsOK R s \<Longrightarrow> pageGeneration_fn w path (VisitErr i e) s = (s', r) \<Longrightarrow> pairsOK R s'"
  by (cases s) (auto simp: pageGeneration_fn_def pairsOK_def)

lemma pageGeneration_fn_support:
  "pageGeneration_fn w path (Visit \<lparr>Name = ''support'', IsDir = True\<rparr>) s = (s, Some SkipDir)"
  by (cases s) (simp add: pageGeneration_fn_def)

lemma walk_pageGeneration_pairsOK:
  "fn = pageGeneration_fn w \<Longrightarrow> normal R \<Longrightarrow> visitOK R path name \<Longrightarrow> validNames t \<Longrightarrow>
   pairsOK R s \<Longrightarrow> pairsOK R (fst (walk fn path name t s))"
  "fn = pageGeneration_fn w \<Longrightarrow> normal R \<Longrightarrow> sfree R path \<Longrightarrow> validEntries es \<Longrightarrow>
   pairsOK R s \<Longrightarrow> pairsOK R (fst (walkNames fn path es s))"
proof (induction fn path name t s and fn path es s rule: walk_walkNames.induct)
  case (1 fn path name e s)
  then show ?case using pageGeneration_fn_err_pairsOK by (metis prod.collapse walk.simps(1))
next
  case (2 fn path name s)
  then show ?case using pageGeneration_fn_pairsOK by (metis prod.collapse walk.simps(2))
next
  case (3 fn path name e s)
  then show ?case using pageGeneration_fn_err_pairsOK by (metis prod.collapse walk.simps(3))
next
  case (4 fn path name entries s)
  show ?case
  proof (cases "name = ''support''")
    case True
    then show ?thesis using 4(2,6) by (simp add: pageGeneration_fn_support)
  next
    case False
    obtain s1 r where f: "fn path (Visit \<lparr>Name = name, IsDir = True\<rparr>) s = (s1, r)" by fastforce
    have i1: "pairsOK R s1" using pageGeneration_fn_pairsOK[OF 4(3,4,6)] f 4(2) by blast
    have sp: "sfree R path" using 4(4) False sfree_root sfree_child[OF 4(3)]
      by (auto simp: visitOK_def)
    show ?thesis
    proof (cases r)
      case None
      then show ?thesis using 4(1)[OF f[symmetric] None 4(2,3) sp _ i1] 4(5) f by simp
    next
      case (Some a)
      then show ?thesis using f i1 by simp
    qed
  qed
next
  case (5 fn path s)
  then show ?case by simp
next
  case (6 fn path name node rest s)
  obtain s1 r where w: "walk fn (Join [path, name]) name node s = (s1, r)" by fastforce
  have pn: "plain name" "validNames node" "validEntries rest" using 6(7) by auto
  have np: "normal path" using below_normal[OF 6(5) sfree_below[OF 6(6)]] .
  have j: "Join [path, name] = path @ CHR ''/'' # name" using Join_name[OF np pn(1)] .
  have v: "visitOK R (Join [path, name]) name" unfolding j visitOK_def using 6(6) pn(1) by blast
  have i1: "pairsOK R s1" using 6(1)[OF 6(4,5) v pn(2) 6(8)] w by simp
  show ?case
  proof (cases r)
    case None
    then show ?thesis using 6(2)[OF w[symmetric] None 6(4,5,6) pn(3) i1] w by simp
  next
    case (Some err)
    show ?thesis
    proof (cases "skippable node \<and> err = SkipDir")
      case True
      then show ?thesis using 6(3)[OF w[symmetric] Some True 6(4,5,6) pn(3) i1] w Some by simp
    next
      case False
      then show ?thesis using w Some i1 by auto
    qed
  qed
qed


lemma skippable_prune: "skippable (prune n t) = skippable t"
  by (cases t) auto

lemma walk_prune:
  "fn = pageGeneration_fn w \<Longrightarrow> walk fn path name (prune name t) s = walk fn path name t s"
  "fn = pageGeneration_fn w \<Longrightarrow> walkNames fn path (pruneEntries es) s = walkNames fn path es s"
proof (induction fn path name t s and fn path es s rule: walk_walkNames.induct)
  case (4 fn path name entries s)
  show ?case
  proof (cases "name = ''support''")
    case True
    then show ?thesis using 4(2) by (simp add: pageGeneration_fn_support)
  next
    case False
    then show ?thesis using 4 by (auto split: prod.splits option.splits)
  qed
next
  case (6 fn path name node rest s)
  then show ?case by (auto simp: skippable_prune split: prod.splits option.splits)
qed simp_all

lemma pageGeneration_fn_NonDir_noskip:
  "pageGeneration_fn w path (Visit \<lparr>Name = name, IsDir = False\<rparr>) s \<noteq> (s', Some SkipDir)"
  by (cases s) (auto simp: pageGeneration_fn_def Let_def split: sum.splits)

lemma walk_SkipDir:
  "fn = pageGeneration_fn w \<Longrightarrow> walk fn path name t s = (s', Some SkipDir) \<Longrightarrow> skippable t"
  "fn = pageGeneration_fn w \<Longrightarrow> walkNames fn path es s \<noteq> (s', Some SkipDir)"
proof (induction fn path name t s and fn path es s arbitrary: s' and s' rule: walk_walkNames.induct)
  case (2 fn path name s)
  then show ?case using pageGeneration_fn_NonDir_noskip by simp
next
  case (6 fn path name node rest s)
  obtain s1 r where w: "walk fn (Join [path, name]) name node s = (s1, r)" by fastforce
  show ?case
  proof (cases r)
    case None
    then show ?thesis using 6(2)[OF w[symmetric] None 6(4)] w by simp
  next
    case (Some err)
    show ?thesis
    proof (cases "skippable node \<and> err = SkipDir")
      case True
      then show ?thesis using 6(3)[OF w[symmetric] Some True 6(4)] w Some by simp
    next
      case False
      then show ?thesis using w Some 6(1)[OF 6(4)] by auto
    qed
  qed
qed simp_all

lemma pageGeneration_fn_success:
  "pageGeneration_fn w path (Visit info) s = (s', r) \<Longrightarrow> r = None \<or> r = Some SkipDir \<Longrightarrow>
   \<not> companionMissing w (path, info)"
  by (cases s) (auto simp: pageGeneration_fn_def companionMissing_def Let_def HasSuffix_def
      split: if_splits sum.splits)

lemma walk_success_paired:
  "fn = pageGeneration_fn w \<Longrightarrow> walk fn path name t s = (s', r) \<Longrightarrow> r = None \<or> r = Some SkipDir \<Longrightarrow>
   \<forall>e \<in> set (entries path name (prune name t)). \<not> companionMissing w e"
  "fn = pageGeneration_fn w \<Longrightarrow> walkNames fn path es s = (s', r) \<Longrightarrow> r = None \<Longrightarrow>
   \<forall>e \<in> set (entriesIn path (pruneEntries es)). \<not> companionMissing w e"
proof (induction fn path name t s and fn path es s arbitrary: s' r and s' r rule: walk_walkNames.induct)
  case (2 fn path name s)
  then show ?case using pageGeneration_fn_success by simp
next
  case (4 fn path name entries s)
  obtain s1 r1 where f: "fn path (Visit \<lparr>Name = name, IsDir = True\<rparr>) s = (s1, r1)" by fastforce
  show ?case
  proof (cases "name = ''support''")
    case True
    then show ?thesis by (simp add: companionMissing_def HasSuffix_def)
  next
    case False
    show ?thesis
    proof (cases r1)
      case None
      have w: "walkNames fn path entries s1 = (s', r)" using 4(3) f None by simp
      have "r = None"
        using 4(4) w walk_SkipDir(2)[OF 4(2), where path = path and es = entries and s = s1 and s' = s']
        by auto
      then have "\<forall>e \<in> set (entriesIn path (pruneEntries entries)). \<not> companionMissing w e"
        using 4(1)[OF f[symmetric] None 4(2) w] by simp
      moreover have "\<not> companionMissing w (path, \<lparr>Name = name, IsDir = True\<rparr>)"
        using pageGeneration_fn_success[of w path _ s s1 r1] f None 4(2) by simp
      ultimately show ?thesis using False by simp
    next
      case (Some a)
      then have "r = r1" "s' = s1" using 4(3) f by auto
      then have "\<not> companionMissing w (path, \<lparr>Name = name, IsDir = True\<rparr>)"
        using pageGeneration_fn_success[of w path _ s s1 r1] f 4(2,4) by simp
      moreover have "r1 = Some SkipDir" using Some 4(4) \<open>r = r1\<close> by simp
      then have "name = ''support''" using f 4(2)
        by (cases s) (auto simp: pageGeneration_fn_def Let_def split: if_splits sum.splits)
      ultimately show ?thesis using False by simp
    qed
  qed
next
  case (6 fn path name node rest s)
  obtain s1 r1 where w: "walk fn (Join [path, name]) name node s = (s1, r1)" by fastforce
  show ?case
  proof (cases r1)
    case None
    have rest: "walkNames fn path rest s1 = (s', r)" using 6(5) w None by simp
    show ?thesis using 6(1)[OF 6(4) w] 6(2)[OF w[symmetric] None 6(4) rest 6(6)] None by auto
  next
    case (Some err)
    show ?thesis
    proof (cases "skippable node \<and> err = SkipDir")
      case True
      have rest: "walkNames fn path rest s1 = (s', r)" using 6(5) w Some True by simp
      show ?thesis using 6(1)[OF 6(4) w] 6(3)[OF w[symmetric] Some True 6(4) rest 6(6)] Some True by auto
    next
      case False
      then show ?thesis using 6(5,6) w Some by auto
    qed
  qed
qed simp_all

lemma pageGeneration_fn_visit_cases:
  assumes "pageGeneration_fn w path (Visit info) s = (s', r)"
  shows "(snd (snd s') = snd (snd s) \<and> (r = None \<or> r = Some SkipDir)) \<or>
         (companionMissing w (path, info) \<and> r = Some (Error (''no html file for '' @ path)) \<and>
          snd (snd s') = snd (snd s) @
            [Stderr (''unable to find corresponding html file for json file '' @ path @ ''\<newline>'')])"
  using assms
  by (cases s) (auto simp: pageGeneration_fn_def companionMissing_def Let_def
      split: if_splits sum.splits)

lemma walk_readable_first:
  "fn = pageGeneration_fn w \<Longrightarrow> readable t \<Longrightarrow> walk fn path name t s = (s', r) \<Longrightarrow>
   (snd (snd s') = snd (snd s) \<and> (r = None \<or> r = Some SkipDir)) \<or>
   (\<exists>pre q post. entries path name (prune name t) = pre @ q # post \<and>
      (\<forall>x \<in> set pre. \<not> companionMissing w x) \<and>
      companionMissing w q \<and> r = Some (Error (''no html file for '' @ fst q)) \<and>
      snd (snd s') = snd (snd s) @
        [Stderr (''unable to find corresponding html file for json file '' @ fst q @ ''\<newline>'')])"
  "fn = pageGeneration_fn w \<Longrightarrow> readableEntries es \<Longrightarrow> walkNames fn path es s = (s', r) \<Longrightarrow>
   (snd (snd s') = snd (snd s) \<and> r = None) \<or>
   (\<exists>pre q post. entriesIn path (pruneEntries es) = pre @ q # post \<and>
      (\<forall>x \<in> set pre. \<not> companionMissing w x) \<and>
      companionMissing w q \<and> r = Some (Error (''no html file for '' @ fst q)) \<and>
      snd (snd s') = snd (snd s) @
        [Stderr (''unable to find corresponding html file for json file '' @ fst q @ ''\<newline>'')])"
proof (induction fn path name t s and fn path es s arbitrary: s' r and s' r rule: walk_walkNames.induct)
  case (2 fn path name s)
  have "(snd (snd s') = snd (snd s) \<and> (r = None \<or> r = Some SkipDir)) \<or>
         (companionMissing w (path, \<lparr>Name = name, IsDir = False\<rparr>) \<and>
          r = Some (Error (''no html file for '' @ path)) \<and>
          snd (snd s') = snd (snd s) @
            [Stderr (''unable to find corresponding html file for json file '' @ path @ ''\<newline>'')])"
    using pageGeneration_fn_visit_cases[of w path "\<lparr>Name = name, IsDir = False\<rparr>" s s' r] 2 by simp
  then show ?case
  proof
    assume "snd (snd s') = snd (snd s) \<and> (r = None \<or> r = Some SkipDir)"
    then show ?thesis by blast
  next
    assume a: "companionMissing w (path, \<lparr>Name = name, IsDir = False\<rparr>) \<and>
          r = Some (Error (''no html file for '' @ path)) \<and>
          snd (snd s') = snd (snd s) @
            [Stderr (''unable to find corresponding html file for json file '' @ path @ ''\<newline>'')]"
    have "entries path name (prune name NonDir) = [] @ (path, \<lparr>Name = name, IsDir = False\<rparr>) # []"
      by simp
    then show ?thesis using a by (intro disjI2 exI[of _ "[]"] exI[of _ "(path, \<lparr>Name = name, IsDir = False\<rparr>)"]) auto
  qed
next
  case (4 fn path name ents s)
  obtain s1 r1 where f: "fn path (Visit \<lparr>Name = name, IsDir = True\<rparr>) s = (s1, r1)" by fastforce
  let ?d = "(path, \<lparr>Name = name, IsDir = True\<rparr>)"
  have c: "(snd (snd s1) = snd (snd s) \<and> (r1 = None \<or> r1 = Some SkipDir)) \<or>
         (companionMissing w ?d \<and> r1 = Some (Error (''no html file for '' @ path)) \<and>
          snd (snd s1) = snd (snd s) @
            [Stderr (''unable to find corresponding html file for json file '' @ path @ ''\<newline>'')])"
    using pageGeneration_fn_visit_cases[of w path "\<lparr>Name = name, IsDir = True\<rparr>" s s1 r1] f 4(2) by simp
  show ?case
  proof (cases "name = ''support''")
    case True
    then show ?thesis using 4(2,4) by (simp add: pageGeneration_fn_support)
  next
    case False
    have en: "entries path name (prune name (Directory ents)) = ?d # entriesIn path (pruneEntries ents)"
      using False by simp
    show ?thesis
    proof (cases r1)
      case None
      have w: "walkNames fn path ents s1 = (s', r)" using 4(4) f None by simp
      have re: "readableEntries ents" using 4(3) by simp
      have e1: "snd (snd s1) = snd (snd s)" using c None by auto
      have nd: "\<not> companionMissing w ?d"
        using pageGeneration_fn_success[of w path _ s s1 r1] f None 4(2) by simp
      from 4(1)[OF f[symmetric] None 4(2) re w]
      show ?thesis
      proof
        assume "snd (snd s') = snd (snd s1) \<and> r = None"
        then show ?thesis using e1 by simp
      next
        assume "\<exists>pre q post. entriesIn path (pruneEntries ents) = pre @ q # post \<and>
          (\<forall>x \<in> set pre. \<not> companionMissing w x) \<and>
          companionMissing w q \<and> r = Some (Error (''no html file for '' @ fst q)) \<and>
          snd (snd s') = snd (snd s1) @
            [Stderr (''unable to find corresponding html file for json file '' @ fst q @ ''\<newline>'')]"
        then obtain pre q post where p: "entriesIn path (pruneEntries ents) = pre @ q # post"
          "\<forall>x \<in> set pre. \<not> companionMissing w x" "companionMissing w q"
          "r = Some (Error (''no html file for '' @ fst q))"
          "snd (snd s') = snd (snd s1) @
            [Stderr (''unable to find corresponding html file for json file '' @ fst q @ ''\<newline>'')]"
          by blast
        have "entries path name (prune name (Directory ents)) = (?d # pre) @ q # post"
          using en p(1) by simp
        moreover have "\<forall>x \<in> set (?d # pre). \<not> companionMissing w x" using nd p(2) by simp
        ultimately show ?thesis using p(3,4,5) e1 by metis
      qed
    next
      case (Some a)
      then have eq: "r = r1" "s' = s1" using 4(4) f by auto
      from c show ?thesis
      proof
        assume "snd (snd s1) = snd (snd s) \<and> (r1 = None \<or> r1 = Some SkipDir)"
        then show ?thesis using eq by simp
      next
        assume a: "companionMissing w ?d \<and> r1 = Some (Error (''no html file for '' @ path)) \<and>
          snd (snd s1) = snd (snd s) @
            [Stderr (''unable to find corresponding html file for json file '' @ path @ ''\<newline>'')]"
        have "entries path name (prune name (Directory ents)) = [] @ ?d # entriesIn path (pruneEntries ents)"
          using en by simp
        then show ?thesis using a eq
          by (intro disjI2 exI[of _ "[]"] exI[of _ ?d] exI[of _ "entriesIn path (pruneEntries ents)"]) auto
      qed
    qed
  qed
next
  case (5 fn path s)
  then show ?case by simp
next
  case (6 fn path name node rest s)
  obtain s1 r1 where w: "walk fn (Join [path, name]) name node s = (s1, r1)" by fastforce
  have rd: "readable node" "readableEntries rest" using 6(5) by auto
  let ?ce = "entries (Join [path, name]) name (prune name node)"
  let ?re = "entriesIn path (pruneEntries rest)"
  have en: "entriesIn path (pruneEntries ((name, node) # rest)) = ?ce @ ?re" by simp
  note ih1 = 6(1)[OF 6(4) rd(1) w]
  have cont: "walkNames fn path rest s1 = (s', r) \<Longrightarrow> snd (snd s1) = snd (snd s) \<Longrightarrow>
      r1 = None \<or> r1 = Some SkipDir \<Longrightarrow>
      (r1 = None \<Longrightarrow> (snd (snd s') = snd (snd s1) \<and> r = None) \<or>
        (\<exists>pre q post. ?re = pre @ q # post \<and>
          (\<forall>x \<in> set pre. \<not> companionMissing w x) \<and>
          companionMissing w q \<and> r = Some (Error (''no html file for '' @ fst q)) \<and>
          snd (snd s') = snd (snd s1) @
            [Stderr (''unable to find corresponding html file for json file '' @ fst q @ ''\<newline>'')])) \<Longrightarrow>
      (r1 = Some SkipDir \<Longrightarrow> (snd (snd s') = snd (snd s1) \<and> r = None) \<or>
        (\<exists>pre q post. ?re = pre @ q # post \<and>
          (\<forall>x \<in> set pre. \<not> companionMissing w x) \<and>
          companionMissing w q \<and> r = Some (Error (''no html file for '' @ fst q)) \<and>
          snd (snd s') = snd (snd s1) @
            [Stderr (''unable to find corresponding html file for json file '' @ fst q @ ''\<newline>'')])) \<Longrightarrow>
      ?case"
  proof -
    assume rest: "walkNames fn path rest s1 = (s', r)" and e1: "snd (snd s1) = snd (snd s)"
      and ok: "r1 = None \<or> r1 = Some SkipDir"
      and i1: "r1 = None \<Longrightarrow> (snd (snd s') = snd (snd s1) \<and> r = None) \<or>
        (\<exists>pre q post. ?re = pre @ q # post \<and>
          (\<forall>x \<in> set pre. \<not> companionMissing w x) \<and>
          companionMissing w q \<and> r = Some (Error (''no html file for '' @ fst q)) \<and>
          snd (snd s') = snd (snd s1) @
            [Stderr (''unable to find corresponding html file for json file '' @ fst q @ ''\<newline>'')])"
      and i2: "r1 = Some SkipDir \<Longrightarrow> (snd (snd s') = snd (snd s1) \<and> r = None) \<or>
        (\<exists>pre q post. ?re = pre @ q # post \<and>
          (\<forall>x \<in> set pre. \<not> companionMissing w x) \<and>
          companionMissing w q \<and> r = Some (Error (''no html file for '' @ fst q)) \<and>
          snd (snd s') = snd (snd s1) @
            [Stderr (''unable to find corresponding html file for json file '' @ fst q @ ''\<newline>'')])"
    have cp: "\<forall>x \<in> set ?ce. \<not> companionMissing w x"
      using walk_success_paired(1)[OF 6(4) w ok] .
    from ok i1 i2 have "(snd (snd s') = snd (snd s1) \<and> r = None) \<or>
        (\<exists>pre q post. ?re = pre @ q # post \<and>
          (\<forall>x \<in> set pre. \<not> companionMissing w x) \<and>
          companionMissing w q \<and> r = Some (Error (''no html file for '' @ fst q)) \<and>
          snd (snd s') = snd (snd s1) @
            [Stderr (''unable to find corresponding html file for json file '' @ fst q @ ''\<newline>'')])"
      by blast
    then show ?case
    proof
      assume "snd (snd s') = snd (snd s1) \<and> r = None"
      then show ?thesis using e1 by simp
    next
      assume "\<exists>pre q post. ?re = pre @ q # post \<and>
          (\<forall>x \<in> set pre. \<not> companionMissing w x) \<and>
          companionMissing w q \<and> r = Some (Error (''no html file for '' @ fst q)) \<and>
          snd (snd s') = snd (snd s1) @
            [Stderr (''unable to find corresponding html file for json file '' @ fst q @ ''\<newline>'')]"
      then obtain pre q post where p: "?re = pre @ q # post"
          "\<forall>x \<in> set pre. \<not> companionMissing w x" "companionMissing w q"
          "r = Some (Error (''no html file for '' @ fst q))"
          "snd (snd s') = snd (snd s1) @
            [Stderr (''unable to find corresponding html file for json file '' @ fst q @ ''\<newline>'')]"
        by blast
      have "entriesIn path (pruneEntries ((name, node) # rest)) = (?ce @ pre) @ q # post"
        using en p(1) by simp
      moreover have "\<forall>x \<in> set (?ce @ pre). \<not> companionMissing w x" using cp p(2) by auto
      ultimately show ?thesis using p(3,4,5) e1 by metis
    qed
  qed
  show ?case
  proof (cases r1)
    case None
    have rest: "walkNames fn path rest s1 = (s', r)" using 6(6) w None by simp
    have e1: "snd (snd s1) = snd (snd s)" using ih1 None by auto
    show ?thesis
      by (rule cont[OF rest e1]) (use None 6(2)[OF w[symmetric] None 6(4) rd(2) rest] in auto)
  next
    case (Some err)
    show ?thesis
    proof (cases "skippable node \<and> err = SkipDir")
      case True
      have rest: "walkNames fn path rest s1 = (s', r)" using 6(6) w Some True by simp
      have e1: "snd (snd s1) = snd (snd s)" using ih1 Some True by auto
      show ?thesis
        by (rule cont[OF rest e1]) (use Some True 6(3)[OF w[symmetric] Some True 6(4) rd(2) rest] in auto)
    next
      case False
      then have eq: "s' = s1" "r = Some err" using 6(6) w Some by auto
      have "err = SkipDir \<Longrightarrow> skippable node"
        using walk_SkipDir(1)[OF 6(4), where path = "Join [path, name]" and name = name
            and t = node and s = s and s' = s1] w Some by simp
      then have ns: "err \<noteq> SkipDir" using False by blast
      then have "\<exists>pre q post. ?ce = pre @ q # post \<and>
          (\<forall>x \<in> set pre. \<not> companionMissing w x) \<and>
          companionMissing w q \<and> r1 = Some (Error (''no html file for '' @ fst q)) \<and>
          snd (snd s1) = snd (snd s) @
            [Stderr (''unable to find corresponding html file for json file '' @ fst q @ ''\<newline>'')]"
        using ih1 Some by auto
      then obtain pre q post where p: "?ce = pre @ q # post"
          "\<forall>x \<in> set pre. \<not> companionMissing w x" "companionMissing w q"
          "r1 = Some (Error (''no html file for '' @ fst q))"
          "snd (snd s1) = snd (snd s) @
            [Stderr (''unable to find corresponding html file for json file '' @ fst q @ ''\<newline>'')]"
        by blast
      have "entriesIn path (pruneEntries ((name, node) # rest)) = pre @ q # (post @ ?re)"
        using en p(1) by simp
      then show ?thesis using p(2,3,4,5) eq Some by metis
    qed
  qed
qed simp_all

lemma walk_events_Stderr:
  "fn = pageGeneration_fn w \<Longrightarrow> \<forall>ev \<in> set (snd (snd s)). \<exists>m. ev = Stderr m \<Longrightarrow>
   \<forall>ev \<in> set (snd (snd (fst (walk fn path name t s)))). \<exists>m. ev = Stderr m"
  "fn = pageGeneration_fn w \<Longrightarrow> \<forall>ev \<in> set (snd (snd s)). \<exists>m. ev = Stderr m \<Longrightarrow>
   \<forall>ev \<in> set (snd (snd (fst (walkNames fn path es s)))). \<exists>m. ev = Stderr m"
proof (induction fn path name t s and fn path es s rule: walk_walkNames.induct)
  case (1 fn path name e s)
  then show ?case by (cases s) (auto simp: pageGeneration_fn_def)
next
  case (2 fn path name s)
  then show ?case by (cases s) (auto simp: pageGeneration_fn_def Let_def split: sum.splits)
next
  case (3 fn path name e s)
  then show ?case by (cases s) (auto simp: pageGeneration_fn_def)
next
  case (4 fn path name entries s)
  obtain s1 r where f: "fn path (Visit \<lparr>Name = name, IsDir = True\<rparr>) s = (s1, r)" by fastforce
  have i1: "\<forall>ev \<in> set (snd (snd s1)). \<exists>m. ev = Stderr m" using 4(2,3) f
    by (cases s) (auto simp: pageGeneration_fn_def Let_def split: sum.splits if_splits)
  show ?case
  proof (cases r)
    case None
    then show ?thesis using 4(1)[OF f[symmetric] None 4(2) i1] f by simp
  next
    case (Some a)
    then show ?thesis using f i1 by simp
  qed
next
  case (5 fn path s)
  then show ?case by simp
next
  case (6 fn path name node rest s)
  obtain s1 r where w: "walk fn (Join [path, name]) name node s = (s1, r)" by fastforce
  have i1: "\<forall>ev \<in> set (snd (snd s1)). \<exists>m. ev = Stderr m" using 6(1)[OF 6(4,5)] w by simp
  show ?case
  proof (cases r)
    case None
    then show ?thesis using 6(2)[OF w[symmetric] None 6(4) i1] w by simp
  next
    case (Some err)
    show ?thesis
    proof (cases "skippable node \<and> err = SkipDir")
      case True
      then show ?thesis using 6(3)[OF w[symmetric] Some True 6(4) i1] w Some by simp
    next
      case False
      then show ?thesis using w Some i1 by auto
    qed
  qed
qed

lemma splitSlash_components:
  "\<forall>n \<in> set ns. CHR ''/'' \<notin> set n \<Longrightarrow> CHR ''/'' \<notin> set n0 \<Longrightarrow>
   splitSlash (n0 @ concat (map (\<lambda>n. CHR ''/'' # n) ns)) = n0 # ns"
proof (induction ns arbitrary: n0)
  case Nil then show ?case by (simp add: splitSlash_noslash)
next
  case (Cons a ns)
  have "splitSlash (n0 @ CHR ''/'' # (a @ concat (map (\<lambda>n. CHR ''/'' # n) ns))) =
        splitSlash n0 @ splitSlash (a @ concat (map (\<lambda>n. CHR ''/'' # n) ns))"
    by (rule splitSlash_append)
  then show ?case using Cons by (simp add: splitSlash_noslash)
qed

lemma sfree_no_support_component:
  assumes "sfree R p"
  shows "''support'' \<notin> set (splitSlash (TrimPrefix p R))"
proof -
  obtain ns where ns: "\<forall>n \<in> set ns. plain n \<and> n \<noteq> ''support''" "p = descend R ns"
    using assms by (auto simp: sfree_def)
  have "\<forall>n \<in> set ns. CHR ''/'' \<notin> set n" using ns(1) plain_noslash by blast
  then have "splitSlash ([] @ concat (map (\<lambda>n. CHR ''/'' # n) ns)) = [] # ns"
    by (intro splitSlash_components) auto
  then show ?thesis using ns by (auto simp: TrimPrefix_descend)
qed

lemma launchPagegen_events:
  "RunPagegen a \<in> set (fst (launchPagegen w sp tp h j out)) \<Longrightarrow>
   a = [''--support'', sp, ''--dir'', tp, ''--start'', h, ''--json'', j]"
  by (auto simp: launchPagegen_def Let_def split: cmd_output.splits option.splits)

lemma generatePages_events:
  "RunPagegen a \<in> set (fst (generatePages w project arg htmlFiles i jsonFiles)) \<Longrightarrow>
   \<exists>k j. k < length htmlFiles \<and> j \<in> set jsonFiles \<and>
     a = [''--support'', ''support'', ''--dir'', constructTemplatesPath project arg,
          ''--start'', TrimPrefix (htmlFiles ! k) (constructTemplatesPath project arg),
          ''--json'', TrimPrefix j (constructTemplatesPath project arg)]"
proof (induction jsonFiles arbitrary: i)
  case Nil then show ?case by simp
next
  case (Cons j js)
  show ?case
  proof (cases "HasPrefix j (constructTemplatesPath project arg) \<and> i < length htmlFiles")
    case False
    then have "\<not> HasPrefix j (constructTemplatesPath project arg) \<or> length htmlFiles \<le> i"
      by auto
    then have "fst (generatePages w project arg htmlFiles i (j # js)) = []" by auto
    then show ?thesis using Cons.prems by simp
  next
    case True
    let ?T = "constructTemplatesPath project arg"
    let ?l = "launchPagegen w ''support'' ?T (TrimPrefix (htmlFiles ! i) ?T) (TrimPrefix j ?T)
                (Join [constructStaticEnglishPath project arg, TrimPrefix (htmlFiles ! i) ?T])"
    have "RunPagegen a \<in> set (fst ?l) \<or>
          RunPagegen a \<in> set (fst (generatePages w project arg htmlFiles (Suc i) js))"
      using Cons.prems True by (auto simp: Let_def split: prod.splits option.splits)
    then show ?thesis
    proof
      assume "RunPagegen a \<in> set (fst ?l)"
      then show ?thesis using launchPagegen_events True by fastforce
    next
      assume "RunPagegen a \<in> set (fst (generatePages w project arg htmlFiles (Suc i) js))"
      then show ?thesis using Cons.IH by fastforce
    qed
  qed
qed

subsection \<open>pageGeneration as a whole\<close>

lemma fst_Walk: "fst (Walk w root fn s) = fst (walk fn root (basename root) (fs_tree w root) s)"
  by (cases "walk fn root (basename root) (fs_tree w root) s") (simp add: Walk_def)

lemma visitOK_templates:
  "visitOK (constructTemplatesPath project arg) (constructTemplatesPath project arg)
     (basename (constructTemplatesPath project arg))"
  unfolding basename_templates visitOK_def by (simp add: HasSuffix_def)

lemma Walk_pageGeneration_pairsOK:
  assumes "validNames (fs_tree w (constructTemplatesPath project arg))"
  shows "pairsOK (constructTemplatesPath project arg)
           (fst (Walk w (constructTemplatesPath project arg) (pageGeneration_fn w) ([], [], [])))"
proof -
  let ?T = "constructTemplatesPath project arg"
  have "pairsOK ?T ([], [], [])" by (simp add: pairsOK_def)
  then have "pairsOK ?T (fst (walk (pageGeneration_fn w) ?T (basename ?T) (fs_tree w ?T) ([], [], [])))"
    using walk_pageGeneration_pairsOK(1)[OF refl normal_templates visitOK_templates assms] by blast
  then show ?thesis by (simp add: fst_Walk)
qed

lemma sfree_HasPrefix: "sfree R p \<Longrightarrow> HasPrefix p R"
  by (auto simp: sfree_def HasPrefix_descend)

lemma pageGeneration_no_panic:
  assumes "validNames (fs_tree w (constructTemplatesPath project arg))"
  shows "snd (pageGeneration w project arg) \<noteq> Panic m"
proof -
  let ?T = "constructTemplatesPath project arg"
  obtain js hs evs r where W: "Walk w ?T (pageGeneration_fn w) ([], [], []) = ((js, hs, evs), r)"
    by (metis prod.collapse)
  have ok: "pairsOK ?T (js, hs, evs)" using Walk_pageGeneration_pairsOK[OF assms] W by simp
  show ?thesis
  proof (cases r)
    case (Some e)
    then show ?thesis using W by (simp add: pageGeneration_def)
  next
    case None
    have "\<forall>j \<in> set js. HasPrefix j ?T" using ok sfree_HasPrefix by (auto simp: pairsOK_def)
    moreover have "0 + length js \<le> length hs" using ok by (simp add: pairsOK_def)
    ultimately have "\<And>evs1. generatePages w project arg hs 0 js \<noteq> (evs1, Panic m)"
      by (rule generatePages_no_panic)
    then show ?thesis using W None by (auto simp: pageGeneration_def split: prod.splits)
  qed
qed

lemma pageGeneration_fn_fs_tree [simp]:
  "pageGeneration_fn (w\<lparr>fs_tree := f\<rparr>) = pageGeneration_fn w"
  by (intro ext) (auto simp: pageGeneration_fn_def Let_def split: prod.splits walk_visit.splits sum.splits)

lemma launchPagegen_fs_tree [simp]:
  "launchPagegen (w\<lparr>fs_tree := f\<rparr>) = launchPagegen w"
  by (intro ext) (auto simp: launchPagegen_def Let_def split: cmd_output.splits option.splits)

lemma generatePages_fs_tree [simp]:
  "generatePages (w\<lparr>fs_tree := f\<rparr>) project arg hs i js = generatePages w project arg hs i js"
  by (induction js arbitrary: i) simp_all

lemma pageGeneration_prune:
  "pageGeneration (w\<lparr>fs_tree := (\<lambda>p. prune (basename p) (fs_tree w p))\<rparr>) project arg =
   pageGeneration w project arg"
proof -
  have W: "Walk (w\<lparr>fs_tree := (\<lambda>p. prune (basename p) (fs_tree w p))\<rparr>)
             (constructTemplatesPath project arg) (pageGeneration_fn w) ([], [], []) =
           Walk w (constructTemplatesPath project arg) (pageGeneration_fn w) ([], [], [])"
    by (simp add: Walk_def walk_prune(1)[OF refl])
  show ?thesis
    by (auto simp: pageGeneration_def Let_def W split: prod.splits option.splits)
qed

lemma pageGeneration_support_free:
  assumes "validNames (fs_tree w (constructTemplatesPath project arg))"
    and "RunPagegen a \<in> set (fst (pageGeneration w project arg))"
  shows "\<exists>html json.
     a = [''--support'', ''support'', ''--dir'', constructTemplatesPath project arg,
          ''--start'', html, ''--json'', json] \<and>
     ''support'' \<notin> set (splitSlash html) \<and> ''support'' \<notin> set (splitSlash json)"
proof -
  let ?T = "constructTemplatesPath project arg"
  obtain js hs evs r where W: "Walk w ?T (pageGeneration_fn w) ([], [], []) = ((js, hs, evs), r)"
    by (metis prod.collapse)
  have ok: "pairsOK ?T (js, hs, evs)" using Walk_pageGeneration_pairsOK[OF assms(1)] W by simp
  then have ev: "RunPagegen a \<notin> set evs" by (auto simp: pairsOK_def)
  have "RunPagegen a \<in> set (fst (generatePages w project arg hs 0 js))"
    using assms(2) W ev by (auto simp: pageGeneration_def split: option.splits prod.splits)
  then obtain k j where kj: "k < length hs" "j \<in> set js"
      "a = [''--support'', ''support'', ''--dir'', ?T,
            ''--start'', TrimPrefix (hs ! k) ?T, ''--json'', TrimPrefix j ?T]"
    using generatePages_events by blast
  have "sfree ?T (hs ! k)" "sfree ?T j" using ok kj(1,2) by (auto simp: pairsOK_def)
  then show ?thesis using kj(3) sfree_no_support_component by blast
qed

lemma Walk_pairs_support_free:
  assumes "validNames (fs_tree w (constructTemplatesPath project arg))"
    and "Walk w (constructTemplatesPath project arg) (pageGeneration_fn w) ([], [], []) =
           ((jsonFiles, htmlFiles, evs), r)"
  shows "\<forall>p \<in> set jsonFiles \<union> set htmlFiles.
           ''support'' \<notin> set (splitSlash (TrimPrefix p (constructTemplatesPath project arg)))"
  using Walk_pageGeneration_pairsOK[OF assms(1)] assms(2) sfree_no_support_component
  by (auto simp: pairsOK_def)

lemma Walk_events_Stderr:
  "Walk w root (pageGeneration_fn w) ([], [], []) = ((js, hs, evs), r) \<Longrightarrow>
   \<forall>ev \<in> set evs. \<exists>m. ev = Stderr m"
proof -
  assume W: "Walk w root (pageGeneration_fn w) ([], [], []) = ((js, hs, evs), r)"
  have "fst (walk (pageGeneration_fn w) root (basename root) (fs_tree w root) ([], [], [])) = (js, hs, evs)"
    using fst_Walk[of w root "pageGeneration_fn w" "([], [], [])"] W by simp
  then show ?thesis
    using walk_events_Stderr(1)[OF refl, of "([], [], [])" w root "basename root" "fs_tree w root"]
    by simp
qed

lemma pageGeneration_unpaired_aborts:
  assumes "e \<in> set (entries (constructTemplatesPath project arg)
                      (basename (constructTemplatesPath project arg))
                      (prune (basename (constructTemplatesPath project arg))
                         (fs_tree w (constructTemplatesPath project arg))))"
    and "companionMissing w e"
  shows "\<exists>evs err. pageGeneration w project arg = (evs, Return (Some err)) \<and>
           (\<forall>ev \<in> set evs. \<exists>m. ev = Stderr m)"
proof -
  let ?T = "constructTemplatesPath project arg"
  obtain js hs evs r where W: "Walk w ?T (pageGeneration_fn w) ([], [], []) = ((js, hs, evs), r)"
    by (metis prod.collapse)
  obtain s1 r1 where w1: "walk (pageGeneration_fn w) ?T (basename ?T) (fs_tree w ?T) ([], [], []) = (s1, r1)"
    by fastforce
  have "\<not> (r1 = None \<or> r1 = Some SkipDir)"
    using walk_success_paired(1)[OF refl w1] assms by blast
  then have "r \<noteq> None" using W w1 by (auto simp: Walk_def split: if_splits)
  then obtain err where r: "r = Some err" by auto
  have "\<forall>ev \<in> set evs. \<exists>m. ev = Stderr m" using Walk_events_Stderr[OF W] .
  then show ?thesis using W r by (auto simp: pageGeneration_def)
qed

lemma pageGeneration_first_unpaired:
  assumes "readable (fs_tree w (constructTemplatesPath project arg))"
    and "e \<in> set (entries (constructTemplatesPath project arg)
                      (basename (constructTemplatesPath project arg))
                      (prune (basename (constructTemplatesPath project arg))
                         (fs_tree w (constructTemplatesPath project arg))))"
    and "companionMissing w e"
  shows "\<exists>pre q post.
           entries (constructTemplatesPath project arg)
             (basename (constructTemplatesPath project arg))
             (prune (basename (constructTemplatesPath project arg))
                (fs_tree w (constructTemplatesPath project arg))) = pre @ q # post \<and>
           (\<forall>x \<in> set pre. \<not> companionMissing w x) \<and>
           companionMissing w q \<and>
           pageGeneration w project arg =
             ([Stderr (''unable to find corresponding html file for json file '' @ fst q @ ''\<newline>''),
               Stderr (''Unable to walk directory '' @ constructTemplatesPath project arg @
                       '': no html file for '' @ fst q)],
              Return (Some (Error (''no html file for '' @ fst q))))"
proof -
  let ?T = "constructTemplatesPath project arg"
  let ?E = "entries ?T (basename ?T) (prune (basename ?T) (fs_tree w ?T))"
  obtain s1 r1 where w1: "walk (pageGeneration_fn w) ?T (basename ?T) (fs_tree w ?T) ([], [], []) = (s1, r1)"
    by fastforce
  have n: "\<not> (r1 = None \<or> r1 = Some SkipDir)"
    using walk_success_paired(1)[OF refl w1] assms(2,3) by blast
  let ?s0 = "([], [], []) :: string list \<times> string list \<times> event list"
  note d = walk_readable_first(1)[OF refl assms(1) w1]
  have "\<exists>pre q post. ?E = pre @ q # post \<and>
      (\<forall>x \<in> set pre. \<not> companionMissing w x) \<and>
      companionMissing w q \<and> r1 = Some (Error (''no html file for '' @ fst q)) \<and>
      snd (snd s1) = snd (snd ?s0) @
        [Stderr (''unable to find corresponding html file for json file '' @ fst q @ ''\<newline>'')]"
    using d
  proof
    assume "snd (snd s1) = snd (snd ?s0) \<and> (r1 = None \<or> r1 = Some SkipDir)"
    then show ?thesis using n by blast
  next
    assume "\<exists>pre q post. ?E = pre @ q # post \<and>
      (\<forall>x \<in> set pre. \<not> companionMissing w x) \<and>
      companionMissing w q \<and> r1 = Some (Error (''no html file for '' @ fst q)) \<and>
      snd (snd s1) = snd (snd ?s0) @
        [Stderr (''unable to find corresponding html file for json file '' @ fst q @ ''\<newline>'')]"
    then show ?thesis .
  qed
  then obtain pre q post where q: "?E = pre @ q # post"
      "\<forall>x \<in> set pre. \<not> companionMissing w x" "companionMissing w q"
      "r1 = Some (Error (''no html file for '' @ fst q))"
      "snd (snd s1) = [Stderr (''unable to find corresponding html file for json file '' @ fst q @ ''\<newline>'')]"
    by auto
  have "pageGeneration w project arg =
             ([Stderr (''unable to find corresponding html file for json file '' @ fst q @ ''\<newline>''),
               Stderr (''Unable to walk directory '' @ ?T @ '': no html file for '' @ fst q)],
              Return (Some (Error (''no html file for '' @ fst q))))"
    using w1 q(4,5) by (cases s1) (simp add: pageGeneration_def Walk_def)
  then show ?thesis using q(1,2,3) by blast
qed

lemma findPages_error:
  "g \<in> set gofiles \<Longrightarrow> parser_ParseFile w g = Inl err \<Longrightarrow>
   \<exists>evs e. findPages w gofiles pages = (evs, Inl e)"
proof (induction gofiles arbitrary: pages)
  case Nil then show ?case by simp
next
  case (Cons a gs)
  show ?case
  proof (cases "parser_ParseFile w a")
    case (Inl e)
    then show ?thesis by (simp add: hasMainFunc_def)
  next
    case (Inr ds)
    then have "g \<in> set gs" using Cons.prems by auto
    then obtain evs e where "findPages w gs (if declsHaveMain ds then pages @ [a] else pages) = (evs, Inl e)"
      using Cons.IH Cons.prems(2) by blast
    then show ?thesis using Inr by (simp add: hasMainFunc_def)
  qed
qed

lemma iterateDirs_readable:
  "readable (fs_tree w dir) \<Longrightarrow>
   iterateDirs w [dir] = ([], Inr (goPaths (entries dir (basename dir) (fs_tree w dir))))"
  by (simp add: iterateDirs_def Walk_def walk_iterateDirs_readable(1)[OF refl])

lemma compilePages_prefix:
  "\<forall>p \<in> set ps. HasPrefix p (constructClientPackagePath project arg) \<and>
      snd (launchGopherjs w project [''build'', ''-m'', ''-o'',
             Join [constructStaticEnglishPath project arg,
                   TrimPrefix p (constructClientPackagePath project arg)], p]) = None \<Longrightarrow>
   compilePages w project arg (ps @ rest) =
     (concat (map (\<lambda>p. fst (launchGopherjs w project [''build'', ''-m'', ''-o'',
             Join [constructStaticEnglishPath project arg,
                   TrimPrefix p (constructClientPackagePath project arg)], p])) ps) @
      fst (compilePages w project arg rest), snd (compilePages w project arg rest))"
  by (induction ps) (auto simp: Let_def split: prod.splits option.splits)

section \<open>The entry-point test\<close>

lemma declsHaveMain_iff: "declsHaveMain ds = (\<exists>recv. FuncDecl recv ''main'' \<in> set ds)"
  by (induction ds rule: declsHaveMain.induct) auto

text \<open>
  Claim C1 says that a file is an entry point exactly when its top-level declarations
  contain a function named \<open>main\<close>, and that a function with a receiver does not count.
  \<open>hasMainFunc\<close> compares the name of every \<open>*ast.FuncDecl\<close> and never looks at its
  receiver: it answers \<open>true\<close> exactly when some function declaration, with or without a
  receiver, is named \<open>main\<close>; so for a file whose only function declaration is the method
  \<open>func (T) main()\<close> it answers \<open>true\<close>.
\<close>

theorem C1_method_named_main_counts:
  "hasMainFunc w path =
     (case parser_ParseFile w path of
        Inl err \<Rightarrow> ([Stderr (''error parsing '' @ path @ '': '' @ errmsg err)], Inl err)
      | Inr decls \<Rightarrow> ([], Inr (\<exists>recv. FuncDecl recv ''main'' \<in> set decls))) \<and>
   hasMainFunc (w_ex\<lparr>parser_ParseFile := (\<lambda>p. Inr [GenDecl, FuncDecl (Some ''T'') ''main''])\<rparr>)
     ''/p/src/a/client/a/main.go'' = ([], Inr True)"
  by (simp add: hasMainFunc_def declsHaveMain_iff split: sum.splits)

section \<open>Start of the process\<close>

text \<open>
  Claim C7, as stated: with \<open>GB_PROJECT_DIR\<close> unset the process fails with exit status 1.
  It panics instead, and a panicking Go program ends with status 2.
\<close>

theorem C7_exit_status_counterexample:
  "main init_globals (w_ex\<lparr>os_LookupEnv := (\<lambda>k. None)\<rparr>) =
     ([], Panicked ''gb extensions should be launched with GB_PROJECT_DIR set'') \<and>
   exit_status (snd (main init_globals (w_ex\<lparr>os_LookupEnv := (\<lambda>k. None)\<rparr>))) \<noteq> 1"
  by (simp add: main_def Getenv_def)

text \<open>
  Claim C7, amended: when \<open>GB_PROJECT_DIR\<close> is unset, both revisions of \<open>main\<close> panic
  with the message ``gb extensions should be launched with GB_PROJECT_DIR set'' before
  anything else happens (no output, no process, no file), and the exit status is 2.
\<close>

theorem C7_unset_project_dir_panics:
  "os_LookupEnv w ''GB_PROJECT_DIR'' = None \<Longrightarrow>
     main g w = ([], Panicked ''gb extensions should be launched with GB_PROJECT_DIR set'') \<and>
     main_go g w = ([], Panicked ''gb extensions should be launched with GB_PROJECT_DIR set'') \<and>
     exit_status (snd (main g w)) = 2 \<and> exit_status (snd (main_go g w)) = 2"
  by (simp add: main_def main_go_def Getenv_def)

theorem C7_unset_project_dir_panics_witness:
  "os_LookupEnv (w_ex\<lparr>os_LookupEnv := (\<lambda>k. None)\<rparr>) ''GB_PROJECT_DIR'' = None \<and>
   main init_globals (w_ex\<lparr>os_LookupEnv := (\<lambda>k. None)\<rparr>) =
     ([], Panicked ''gb extensions should be launched with GB_PROJECT_DIR set'') \<and>
   exit_status (snd (main_go init_globals (w_ex\<lparr>os_LookupEnv := (\<lambda>k. None)\<rparr>))) = 2"
  using C7_unset_project_dir_panics [of "w_ex\<lparr>os_LookupEnv := (\<lambda>k. None)\<rparr>" init_globals]
  by simp

text \<open>
  Claim C10: the package variable \<open>verbose\<close> is never read; two runs that differ only in
  its value produce the same events and end in the same way, in both revisions.
\<close>

theorem C10_verbose_is_never_read:
  "main g1 w = main g2 w \<and> main_go g1 w = main_go g2 w"
  by (simp add: main_def main_go_def)

section \<open>The companion of a description file\<close>

lemma Clean_fixed_normal:
  assumes "Clean P = P" "P \<noteq> ''/''" "P \<noteq> ''.''"
  shows "normal P"
proof -
  define rooted where "rooted = (hd P = CHR ''/'')"
  define st where "st = foldl (cleanStep rooted) [] (splitSlash P)"
  have ne: "P \<noteq> []" using assms(1) by (auto simp: Clean_def)
  have ok: "okStack rooted st" unfolding st_def by (intro okStack_foldl) (auto simp: splitSlash_elems)
  have c: "Clean P = (if rooted then CHR ''/'' # joinSlash (rev st)
                      else if rev st = [] then ''.'' else joinSlash (rev st))"
    unfolding Clean_def Let_def rooted_def[symmetric] st_def[symmetric] using ne by simp
  have "st \<noteq> []" using c assms by (auto split: if_splits)
  moreover have "P = render rooted st" using c assms(1) \<open>st \<noteq> []\<close> by (simp add: render_def)
  ultimately show ?thesis unfolding normal_def using ok by blast
qed

text \<open>
  Claim C9: for an entry named \<open>base.json\<close> the function of the template walk calls
  \<open>os.Stat\<close> on \<open>base.html\<close> in the directory of the entry and looks only at the error:
  when \<open>Stat\<close> succeeds, whatever the \<open>FileInfo\<close> (a directory included), the pair is
  recorded; when it fails, the walk ends with the error.  For an entry \<open>n\<close> of a cleaned
  directory path \<open>P\<close>, the path given to \<open>Stat\<close> is \<open>P/base.html\<close>.
\<close>

theorem C9_companion_is_any_entry:
  "(HasSuffix (Name info) ''.json'' \<and>
    os_Stat w (Join [Dir path, TrimSuffix (Name info) ''.json'' @ ''.html'']) = Inr hinfo \<longrightarrow>
      pageGeneration_fn w path (Visit info) (jsonFiles, htmlFiles, evs) =
        ((jsonFiles @ [path],
          htmlFiles @ [Join [Dir path, TrimSuffix (Name info) ''.json'' @ ''.html'']], evs), None)) \<and>
   (HasSuffix (Name info) ''.json'' \<and>
    os_Stat w (Join [Dir path, TrimSuffix (Name info) ''.json'' @ ''.html'']) = Inl err \<longrightarrow>
      pageGeneration_fn w path (Visit info) (jsonFiles, htmlFiles, evs) =
        ((jsonFiles, htmlFiles,
          evs @ [Stderr (''unable to find corresponding html file for json file '' @ path @ ''\<newline>'')]),
         Some (Error (''no html file for '' @ path)))) \<and>
   (Clean P = P \<and> P \<noteq> ''/'' \<and> P \<noteq> ''.'' \<and> plain n \<longrightarrow>
      Join [P, n] = P @ ''/'' @ n \<and>
      Join [Dir (Join [P, n]), TrimSuffix n ''.json'' @ ''.html''] =
        P @ ''/'' @ TrimSuffix n ''.json'' @ ''.html'')"
proof (intro conjI impI)
  assume a: "Clean P = P \<and> P \<noteq> ''/'' \<and> P \<noteq> ''.'' \<and> plain n"
  then have np: "normal P" using Clean_fixed_normal by blast
  have pn: "plain n" using a by simp
  show j: "Join [P, n] = P @ ''/'' @ n" using Join_name[OF np pn] by simp
  have "Dir (Join [P, n]) = P" using Dir_child[OF np plain_noslash[OF pn]] j by simp
  then show "Join [Dir (Join [P, n]), TrimSuffix n ''.json'' @ ''.html''] =
        P @ ''/'' @ TrimSuffix n ''.json'' @ ''.html''"
    using Join_name[OF np plain_html(1)[OF pn]] by simp
qed (auto simp: pageGeneration_fn_def Let_def HasSuffix_def)

theorem C9_companion_is_any_entry_witness:
  "HasSuffix ''page.json'' ''.json'' \<and>
   os_Stat (w_ex\<lparr>os_Stat := (\<lambda>p. Inr \<lparr>Name = basename p, IsDir = True\<rparr>)\<rparr>)
     (Join [Dir ''/t/x/page.json'', TrimSuffix ''page.json'' ''.json'' @ ''.html'']) =
     Inr \<lparr>Name = ''page.html'', IsDir = True\<rparr> \<and>
   pageGeneration_fn (w_ex\<lparr>os_Stat := (\<lambda>p. Inr \<lparr>Name = basename p, IsDir = True\<rparr>)\<rparr>)
     ''/t/x/page.json'' (Visit \<lparr>Name = ''page.json'', IsDir = False\<rparr>) ([], [], []) =
     (([''/t/x/page.json''], [''/t/x/page.html''], []), None) \<and>
   os_Stat (w_ex\<lparr>os_Stat := (\<lambda>p. Inl (Error ''no such file or directory''))\<rparr>)
     (Join [Dir ''/t/x/page.json'', TrimSuffix ''page.json'' ''.json'' @ ''.html'']) =
     Inl (Error ''no such file or directory'') \<and>
   pageGeneration_fn (w_ex\<lparr>os_Stat := (\<lambda>p. Inl (Error ''no such file or directory''))\<rparr>)
     ''/t/x/page.json'' (Visit \<lparr>Name = ''page.json'', IsDir = False\<rparr>) ([], [], []) =
     (([], [], [Stderr ''unable to find corresponding html file for json file /t/x/page.json\<newline>'']),
      Some (Error ''no html file for /t/x/page.json'')) \<and>
   Clean ''/t/x'' = ''/t/x'' \<and> plain ''page.json'' \<and>
   Join [Dir (Join [''/t/x'', ''page.json'']), TrimSuffix ''page.json'' ''.json'' @ ''.html''] =
     ''/t/x/page.html''"
proof -
  let ?wd = "w_ex\<lparr>os_Stat := (\<lambda>p. Inr \<lparr>Name = basename p, IsDir = True\<rparr>)\<rparr>"
  let ?wf = "w_ex\<lparr>os_Stat := (\<lambda>p. Inl (Error ''no such file or directory''))\<rparr>"
  have h1: "HasSuffix ''page.json'' ''.json''" by code_simp
  have h2: "os_Stat ?wd (Join [Dir ''/t/x/page.json'', TrimSuffix ''page.json'' ''.json'' @ ''.html'']) =
     Inr \<lparr>Name = ''page.html'', IsDir = True\<rparr>" by code_simp
  have h3: "os_Stat ?wf (Join [Dir ''/t/x/page.json'', TrimSuffix ''page.json'' ''.json'' @ ''.html'']) =
     Inl (Error ''no such file or directory'')" by code_simp
  have h4: "Clean ''/t/x'' = ''/t/x''" "plain ''page.json''" by code_simp+
  have e1: "Join [Dir ''/t/x/page.json'', TrimSuffix ''page.json'' ''.json'' @ ''.html''] = ''/t/x/page.html''"
    by code_simp
  note t1 = C9_companion_is_any_entry[of "\<lparr>Name = ''page.json'', IsDir = False\<rparr>" ?wd "''/t/x/page.json''"
      "\<lparr>Name = ''page.html'', IsDir = True\<rparr>" "[]" "[]" "[]" _ "''/t/x''" "''page.json''"]
  note t2 = C9_companion_is_any_entry[of "\<lparr>Name = ''page.json'', IsDir = False\<rparr>" ?wf "''/t/x/page.json''"
      _ "[]" "[]" "[]" "Error ''no such file or directory''" "''/t/x''" "''page.json''"]
  show ?thesis using t1 t2 h1 h2 h3 h4 e1 by simp
qed

section \<open>Output paths and the prefix check\<close>

text \<open>
  Claim C2: every entry point \<open>e\<close> found by the scan of the client directory (by
  \<open>iterateDirs\<close> and the loop that keeps the files with a \<open>main\<close>) has the client path as a
  prefix; the output path that the compilation loop passes to the compiler after \<open>-o\<close>,
  \<open>Join\<close> of the \<open>static/en/web\<close> path and \<open>e\<close> without the client path, is the
  \<open>static/en/web\<close> path followed by that suffix; and removing the \<open>static/en/web\<close> path
  from it and joining the rest to the client path gives \<open>e\<close> back.  The names in the tree
  are those a directory listing can return.
\<close>

theorem C2_output_path_round_trip:
  assumes "validNames (fs_tree w (constructClientPackagePath project arg))"
    and "iterateDirs w [constructClientPackagePath project arg] = (evs, Inr gofiles)"
    and "findPages w gofiles [] = (evs1, Inr pages)"
    and "e \<in> set pages"
  shows "HasPrefix e (constructClientPackagePath project arg) \<and>
    Join [constructStaticEnglishPath project arg, TrimPrefix e (constructClientPackagePath project arg)] =
      constructStaticEnglishPath project arg @ TrimPrefix e (constructClientPackagePath project arg) \<and>
    HasPrefix (Join [constructStaticEnglishPath project arg,
                     TrimPrefix e (constructClientPackagePath project arg)])
              (constructStaticEnglishPath project arg) \<and>
    Join [constructClientPackagePath project arg,
          TrimPrefix (Join [constructStaticEnglishPath project arg,
                            TrimPrefix e (constructClientPackagePath project arg)])
                     (constructStaticEnglishPath project arg)] = e \<and>
    compilePages w project arg (e # rest) =
      (case launchGopherjs w project
              [''build'', ''-m'', ''-o'',
               constructStaticEnglishPath project arg @
                 TrimPrefix e (constructClientPackagePath project arg), e] of
         (evs2, Some err) \<Rightarrow> (evs2, Return (Some err))
       | (evs2, None) \<Rightarrow>
           (case compilePages w project arg rest of (evs3, r) \<Rightarrow> (evs2 @ evs3, r)))"
proof -
  let ?R = "constructClientPackagePath project arg"
  let ?O = "constructStaticEnglishPath project arg"
  have "set pages \<subseteq> set gofiles" using findPages_subset[OF assms(3)] by simp
  then have b: "below ?R e" using iterateDirs_below[OF normal_client assms(1,2)] assms(4) by blast
  note rt = below_roundtrip[OF normal_client normal_static b]
  have "compilePages w project arg (e # rest) =
      (case launchGopherjs w project [''build'', ''-m'', ''-o'', Join [?O, TrimPrefix e ?R], e] of
         (evs2, Some err) \<Rightarrow> (evs2, Return (Some err))
       | (evs2, None) \<Rightarrow>
           (case compilePages w project arg rest of (evs3, r) \<Rightarrow> (evs2 @ evs3, r)))"
    using rt(1) by (simp add: Let_def)
  then show ?thesis using rt by simp
qed

theorem C2_output_path_round_trip_witness:
  "validNames (fs_tree w_ex (constructClientPackagePath ''/p'' ''a'')) \<and>
   iterateDirs w_ex [constructClientPackagePath ''/p'' ''a''] =
     ([], Inr [''/p/src/a/client/a/main.go'', ''/p/src/a/client/b/util.go'']) \<and>
   findPages w_ex [''/p/src/a/client/a/main.go'', ''/p/src/a/client/b/util.go''] [] =
     ([], Inr [''/p/src/a/client/a/main.go'']) \<and>
   Join [constructStaticEnglishPath ''/p'' ''a'',
         TrimPrefix ''/p/src/a/client/a/main.go'' (constructClientPackagePath ''/p'' ''a'')] =
     ''/p/src/a/static/en/web/a/main.go'' \<and>
   Join [constructClientPackagePath ''/p'' ''a'',
         TrimPrefix (Join [constructStaticEnglishPath ''/p'' ''a'',
                           TrimPrefix ''/p/src/a/client/a/main.go''
                             (constructClientPackagePath ''/p'' ''a'')])
                    (constructStaticEnglishPath ''/p'' ''a'')] = ''/p/src/a/client/a/main.go''"
proof -
  have h1: "validNames (fs_tree w_ex (constructClientPackagePath ''/p'' ''a''))" by code_simp
  have h2: "iterateDirs w_ex [constructClientPackagePath ''/p'' ''a''] =
     ([], Inr [''/p/src/a/client/a/main.go'', ''/p/src/a/client/b/util.go''])" by code_simp
  have h3: "findPages w_ex [''/p/src/a/client/a/main.go'', ''/p/src/a/client/b/util.go''] [] =
     ([], Inr [''/p/src/a/client/a/main.go''])" by code_simp
  have h4: "''/p/src/a/client/a/main.go'' \<in> set [''/p/src/a/client/a/main.go'']" by simp
  have h5: "Join [constructStaticEnglishPath ''/p'' ''a'',
         TrimPrefix ''/p/src/a/client/a/main.go'' (constructClientPackagePath ''/p'' ''a'')] =
     ''/p/src/a/static/en/web/a/main.go''" by code_simp
  show ?thesis using C2_output_path_round_trip[OF h1 h2 h3 h4] h1 h2 h3 h5 by blast
qed

text \<open>
  Claim C3: both dispatch loops panic on a path that does not start with the root it was
  found under, and never pass over such a path: a loop that returns \<open>nil\<close> has found the
  prefix on every path.  When every path has the prefix the panic of the check is not
  taken; and this is the case for the paths of the two scans, so \<open>gopherjsCompilation\<close>
  and \<open>pageGeneration\<close> do not panic.  A panic of either ends \<open>main\<close>.
\<close>

theorem C3_prefix_check_panics:
  "(\<not> HasPrefix page (constructClientPackagePath project arg) \<longrightarrow>
      compilePages w project arg (page # pages) =
        ([], Panic (''unable to understand page path '' @ page @ '' in package '' @
                    constructClientPackagePath project arg))) \<and>
   (\<not> HasPrefix jsonFile (constructTemplatesPath project arg) \<longrightarrow>
      generatePages w project arg htmlFiles i (jsonFile # jsonFiles) =
        ([], Panic (''unable to understand json path '' @ jsonFile @ '' in template dir '' @
                    constructTemplatesPath project arg))) \<and>
   (compilePages w project arg ps = (evs, Return None) \<longrightarrow>
      (\<forall>p \<in> set ps. HasPrefix p (constructClientPackagePath project arg))) \<and>
   (generatePages w project arg hs k js = (evs', Return None) \<longrightarrow>
      (\<forall>j \<in> set js. HasPrefix j (constructTemplatesPath project arg))) \<and>
   ((\<forall>p \<in> set ps. HasPrefix p (constructClientPackagePath project arg)) \<longrightarrow>
      snd (compilePages w project arg ps) \<noteq> Panic m) \<and>
   ((\<forall>j \<in> set js. HasPrefix j (constructTemplatesPath project arg)) \<longrightarrow>
      snd (generatePages w project arg hs k js) \<noteq>
        Panic (''unable to understand json path '' @ j' @ '' in template dir '' @ T)) \<and>
   (validNames (fs_tree w (constructClientPackagePath project arg)) \<longrightarrow>
      snd (gopherjsCompilation w project arg) \<noteq> Panic m) \<and>
   (validNames (fs_tree w (constructTemplatesPath project arg)) \<longrightarrow>
      snd (pageGeneration w project arg) \<noteq> Panic m) \<and>
   (validateProjectStructure w project arg = (evs0, None) \<and>
    gopherjsCompilation w project arg = (evs1, Panic m) \<longrightarrow>
      main_loop w project (arg # args) = (evs0 @ evs1, Panicked m)) \<and>
   (validateProjectStructure w project arg = (evs0, None) \<and>
    gopherjsCompilation w project arg = (evs1, Return None) \<and>
    pageGeneration w project arg = (evs2, Panic m) \<longrightarrow>
      main_loop w project (arg # args) = (evs0 @ evs1 @ evs2, Panicked m))"
proof (intro conjI impI)
  show "compilePages w project arg ps = (evs, Return None) \<Longrightarrow>
      \<forall>p \<in> set ps. HasPrefix p (constructClientPackagePath project arg)"
    by (rule compilePages_no_skip)
  show "generatePages w project arg hs k js = (evs', Return None) \<Longrightarrow>
      \<forall>j \<in> set js. HasPrefix j (constructTemplatesPath project arg)"
    by (rule generatePages_no_skip)
  show "\<forall>p \<in> set ps. HasPrefix p (constructClientPackagePath project arg) \<Longrightarrow>
      snd (compilePages w project arg ps) \<noteq> Panic m"
    using compilePages_no_panic[of ps project arg w _ m] by (metis prod.collapse)
  show "\<forall>j \<in> set js. HasPrefix j (constructTemplatesPath project arg) \<Longrightarrow>
      snd (generatePages w project arg hs k js) \<noteq>
        Panic (''unable to understand json path '' @ j' @ '' in template dir '' @ T)"
    using generatePages_no_prefix_panic[of js project arg w hs k _ j' T] by (metis prod.collapse)
  show "validNames (fs_tree w (constructClientPackagePath project arg)) \<Longrightarrow>
      snd (gopherjsCompilation w project arg) \<noteq> Panic m"
    by (rule gopherjsCompilation_no_panic)
  show "validNames (fs_tree w (constructTemplatesPath project arg)) \<Longrightarrow>
      snd (pageGeneration w project arg) \<noteq> Panic m"
    by (rule pageGeneration_no_panic)
qed simp_all

theorem C3_prefix_check_panics_witness:
  "\<not> HasPrefix ''/elsewhere/x.go'' (constructClientPackagePath ''/p'' ''a'') \<and>
   compilePages w_ex ''/p'' ''a'' [''/elsewhere/x.go'', ''/p/src/a/client/a/main.go''] =
     ([], Panic ''unable to understand page path /elsewhere/x.go in package /p/src/a/client'') \<and>
   \<not> HasPrefix ''/elsewhere/x.json'' (constructTemplatesPath ''/p'' ''a'') \<and>
   generatePages w_ex ''/p'' ''a'' [''/elsewhere/x.html''] 0 [''/elsewhere/x.json''] =
     ([], Panic ''unable to understand json path /elsewhere/x.json in template dir /p/src/a/pages/template'') \<and>
   validNames (fs_tree w_ex (constructClientPackagePath ''/p'' ''a'')) \<and>
   snd (gopherjsCompilation w_ex ''/p'' ''a'') = Return None \<and>
   validNames (fs_tree w_ex (constructTemplatesPath ''/p'' ''a'')) \<and>
   snd (pageGeneration w_ex ''/p'' ''a'') = Return None"
proof -
  have h1: "\<not> HasPrefix ''/elsewhere/x.go'' (constructClientPackagePath ''/p'' ''a'')" by code_simp
  have h2: "\<not> HasPrefix ''/elsewhere/x.json'' (constructTemplatesPath ''/p'' ''a'')" by code_simp
  have h3: "validNames (fs_tree w_ex (constructClientPackagePath ''/p'' ''a''))" by code_simp
  have h4: "validNames (fs_tree w_ex (constructTemplatesPath ''/p'' ''a''))" by code_simp
  have e1: "constructClientPackagePath ''/p'' ''a'' = ''/p/src/a/client''"
    and e2: "constructTemplatesPath ''/p'' ''a'' = ''/p/src/a/pages/template''" by code_simp+
  have e3: "snd (gopherjsCompilation w_ex ''/p'' ''a'') = Return None" by code_simp
  have e4: "snd (pageGeneration w_ex ''/p'' ''a'') = Return None" by code_simp
  note t = C3_prefix_check_panics[of "''/elsewhere/x.go''" "''/p''" "''a''" w_ex
      "[''/p/src/a/client/a/main.go'']" "''/elsewhere/x.json''" "[''/elsewhere/x.html'']" 0 "[]"]
  show ?thesis using t h1 h2 h3 h4 e3 e4 by (simp add: e1 e2)
qed

section \<open>Failure of the compiler\<close>

text \<open>
  Claim C6, as stated: after a failure of the compiler for one argument the following
  arguments are still attempted.  With the arguments \<open>a b\<close> and a compiler that fails on
  the entry point of \<open>a\<close> only, both revisions exit with status 1 and nothing is done for
  \<open>b\<close>, which alone would have been built.
\<close>

theorem C6_later_arguments_counterexample:
  "main init_globals w_fail =
     ([RunGopherjs [] [''GOPATH=/p''], RunPagegen [],
       RunGopherjs [''build'', ''-m'', ''-o'', ''/p/src/a/static/en/web/a/main.go'',
                    ''/p/src/a/client/a/main.go''] [''GOPATH=/p:/p/vendor''],
       Stdout ''boom''], Exited 1) \<and>
   main_go init_globals w_fail =
     ([RunGopherjs [] [''GOPATH=/p''],
       RunGopherjs [''build'', ''-m'', ''-o'', ''/p/src/a/static/en/web/a/main.go'',
                    ''/p/src/a/client/a/main.go''] [''GOPATH=/p:/p/vendor''],
       Stdout ''boom''], Exited 1) \<and>
   main_go init_globals (w_fail\<lparr>os_Args := [''gb-seven5'', ''b'']\<rparr>) =
     ([RunGopherjs [] [''GOPATH=/p''],
       RunGopherjs [''build'', ''-m'', ''-o'', ''/p/src/b/static/en/web/a/main.go'',
                    ''/p/src/b/client/a/main.go''] [''GOPATH=/p:/p/vendor''],
       Stdout []], Returned)"
  by code_simp

text \<open>
  Claim C6, amended: when the compiler fails for an entry point, the entry points after
  it are not compiled and \<open>gopherjsCompilation\<close> returns the error; \<open>main\<close> then calls
  \<open>os.Exit(1)\<close>: the process ends with status 1 and no later argument is attempted,
  whatever the later arguments are.  The same holds for the earlier revision.
\<close>

theorem C6_compiler_failure_ends_the_run:
  "((\<forall>p \<in> set ps. HasPrefix p (constructClientPackagePath project arg) \<and>
       snd (launchGopherjs w project [''build'', ''-m'', ''-o'',
              Join [constructStaticEnglishPath project arg,
                    TrimPrefix p (constructClientPackagePath project arg)], p]) = None) \<and>
    HasPrefix page (constructClientPackagePath project arg) \<and>
    launchGopherjs w project [''build'', ''-m'', ''-o'',
        Join [constructStaticEnglishPath project arg,
              TrimPrefix page (constructClientPackagePath project arg)], page] = (evs, Some err) \<longrightarrow>
      compilePages w project arg (ps @ page # rest) =
        (concat (map (\<lambda>p. fst (launchGopherjs w project [''build'', ''-m'', ''-o'',
              Join [constructStaticEnglishPath project arg,
                    TrimPrefix p (constructClientPackagePath project arg)], p])) ps) @ evs,
         Return (Some err))) \<and>
   (iterateDirs w [constructClientPackagePath project arg] = (evs0, Inr gofiles) \<and>
    findPages w gofiles [] = (evs1, Inr pages) \<and>
    compilePages w project arg pages = (evs2, Return (Some err)) \<longrightarrow>
      gopherjsCompilation w project arg = (evs0 @ evs1 @ evs2, Return (Some err)) \<and>
      (validateClientPackage w project arg = None \<and> validateStaticEnglishDir w project arg = None \<longrightarrow>
         main_go_loop w project (arg # args) = (evs0 @ evs1 @ evs2, Exited 1))) \<and>
   (validateProjectStructure w project arg = (evs3, None) \<and>
    gopherjsCompilation w project arg = (evs4, Return (Some err)) \<longrightarrow>
      main_loop w project (arg # args) = (evs3 @ evs4, Exited 1))"
proof (intro conjI impI)
  assume a: "(\<forall>p \<in> set ps. HasPrefix p (constructClientPackagePath project arg) \<and>
       snd (launchGopherjs w project [''build'', ''-m'', ''-o'',
              Join [constructStaticEnglishPath project arg,
                    TrimPrefix p (constructClientPackagePath project arg)], p]) = None) \<and>
    HasPrefix page (constructClientPackagePath project arg) \<and>
    launchGopherjs w project [''build'', ''-m'', ''-o'',
        Join [constructStaticEnglishPath project arg,
              TrimPrefix page (constructClientPackagePath project arg)], page] = (evs, Some err)"
  then have "compilePages w project arg (page # rest) = (evs, Return (Some err))"
    by (simp add: Let_def)
  then show "compilePages w project arg (ps @ page # rest) =
        (concat (map (\<lambda>p. fst (launchGopherjs w project [''build'', ''-m'', ''-o'',
              Join [constructStaticEnglishPath project arg,
                    TrimPrefix p (constructClientPackagePath project arg)], p])) ps) @ evs,
         Return (Some err))"
    using compilePages_prefix[of ps project arg w "page # rest"] a by simp
qed (simp_all add: gopherjsCompilation_def)

theorem C6_compiler_failure_ends_the_run_witness:
  "HasPrefix ''/p/src/a/client/a/main.go'' (constructClientPackagePath ''/p'' ''a'') \<and>
   launchGopherjs w_fail ''/p'' [''build'', ''-m'', ''-o'',
        Join [constructStaticEnglishPath ''/p'' ''a'',
              TrimPrefix ''/p/src/a/client/a/main.go'' (constructClientPackagePath ''/p'' ''a'')],
        ''/p/src/a/client/a/main.go''] =
     ([RunGopherjs [''build'', ''-m'', ''-o'', ''/p/src/a/static/en/web/a/main.go'',
                    ''/p/src/a/client/a/main.go''] [''GOPATH=/p:/p/vendor''],
       Stdout ''boom''], Some (Error ''exit status 1'')) \<and>
   compilePages w_fail ''/p'' ''a'' [''/p/src/a/client/a/main.go'', ''/p/src/a/client/z.go''] =
     ([RunGopherjs [''build'', ''-m'', ''-o'', ''/p/src/a/static/en/web/a/main.go'',
                    ''/p/src/a/client/a/main.go''] [''GOPATH=/p:/p/vendor''],
       Stdout ''boom''], Return (Some (Error ''exit status 1''))) \<and>
   validateProjectStructure w_fail ''/p'' ''a'' = ([], None) \<and>
   gopherjsCompilation w_fail ''/p'' ''a'' =
     ([RunGopherjs [''build'', ''-m'', ''-o'', ''/p/src/a/static/en/web/a/main.go'',
                    ''/p/src/a/client/a/main.go''] [''GOPATH=/p:/p/vendor''],
       Stdout ''boom''], Return (Some (Error ''exit status 1''))) \<and>
   main_loop w_fail ''/p'' [''a'', ''b''] =
     ([RunGopherjs [''build'', ''-m'', ''-o'', ''/p/src/a/static/en/web/a/main.go'',
                    ''/p/src/a/client/a/main.go''] [''GOPATH=/p:/p/vendor''],
       Stdout ''boom''], Exited 1)"
proof -
  have h1: "HasPrefix ''/p/src/a/client/a/main.go'' (constructClientPackagePath ''/p'' ''a'')"
    by code_simp
  have h2: "launchGopherjs w_fail ''/p'' [''build'', ''-m'', ''-o'',
        Join [constructStaticEnglishPath ''/p'' ''a'',
              TrimPrefix ''/p/src/a/client/a/main.go'' (constructClientPackagePath ''/p'' ''a'')],
        ''/p/src/a/client/a/main.go''] =
     ([RunGopherjs [''build'', ''-m'', ''-o'', ''/p/src/a/static/en/web/a/main.go'',
                    ''/p/src/a/client/a/main.go''] [''GOPATH=/p:/p/vendor''],
       Stdout ''boom''], Some (Error ''exit status 1''))" by code_simp
  have h3: "validateProjectStructure w_fail ''/p'' ''a'' = ([], None)" by code_simp
  have h4: "gopherjsCompilation w_fail ''/p'' ''a'' =
     ([RunGopherjs [''build'', ''-m'', ''-o'', ''/p/src/a/static/en/web/a/main.go'',
                    ''/p/src/a/client/a/main.go''] [''GOPATH=/p:/p/vendor''],
       Stdout ''boom''], Return (Some (Error ''exit status 1'')))" by code_simp
  note t = C6_compiler_failure_ends_the_run[of "[]" "''/p''" "''a''" w_fail
      "''/p/src/a/client/a/main.go''" _ "Error ''exit status 1''" "[''/p/src/a/client/z.go'']"
      _ _ _ _ _ "[''b'']" "[]" _, unfolded h2 h3 h4]
  show ?thesis using t h1 h2 h3 h4 by simp
qed


section \<open>What the source scan records\<close>

text \<open>
  Claim C8: \<open>iterateDirs\<close> records every entry that the walk visits and whose name ends in
  \<open>.go\<close>; its function never calls \<open>IsDir\<close>, so a directory of such a name is recorded
  with its path like a file.  Every recorded path is then given to the parser by
  \<open>hasMainFunc\<close>: when the parser fails on one of them, \<open>gopherjsCompilation\<close> returns an
  error.
\<close>

theorem C8_directory_named_go_is_scanned:
  "(readable (fs_tree w dir) \<longrightarrow>
      iterateDirs w [dir] = ([], Inr (goPaths (entries dir (basename dir) (fs_tree w dir))))) \<and>
   (HasSuffix n ''.go'' \<and> (p, \<lparr>Name = n, IsDir = True\<rparr>) \<in> set es \<longrightarrow> p \<in> set (goPaths es)) \<and>
   iterateDirs_fn path (Visit \<lparr>Name = n, IsDir = True\<rparr>) st =
     iterateDirs_fn path (Visit \<lparr>Name = n, IsDir = False\<rparr>) st \<and>
   (iterateDirs w [constructClientPackagePath project arg] = (evs, Inr gofiles) \<and>
    d \<in> set gofiles \<and> parser_ParseFile w d = Inl err \<longrightarrow>
      (\<exists>evs1 e. gopherjsCompilation w project arg = (evs1, Return (Some e))))"
proof (intro conjI impI)
  show "readable (fs_tree w dir) \<Longrightarrow>
      iterateDirs w [dir] = ([], Inr (goPaths (entries dir (basename dir) (fs_tree w dir))))"
    by (rule iterateDirs_readable)
  show "HasSuffix n ''.go'' \<and> (p, \<lparr>Name = n, IsDir = True\<rparr>) \<in> set es \<Longrightarrow> p \<in> set (goPaths es)"
    by (force simp: goPaths_def)
  show "iterateDirs_fn path (Visit \<lparr>Name = n, IsDir = True\<rparr>) st =
     iterateDirs_fn path (Visit \<lparr>Name = n, IsDir = False\<rparr>) st"
    by (simp add: iterateDirs_fn_def)
  assume a: "iterateDirs w [constructClientPackagePath project arg] = (evs, Inr gofiles) \<and>
    d \<in> set gofiles \<and> parser_ParseFile w d = Inl err"
  then obtain evs1 e where "findPages w gofiles [] = (evs1, Inl e)" using findPages_error by blast
  then show "\<exists>evs1 e. gopherjsCompilation w project arg = (evs1, Return (Some e))"
    using a by (simp add: gopherjsCompilation_def)
qed

theorem C8_directory_named_go_is_scanned_witness:
  "readable (fs_tree w_dirgo (constructClientPackagePath ''/p'' ''a'')) \<and>
   entries (constructClientPackagePath ''/p'' ''a'') (basename (constructClientPackagePath ''/p'' ''a''))
     (fs_tree w_dirgo (constructClientPackagePath ''/p'' ''a'')) =
     [(''/p/src/a/client'', \<lparr>Name = ''client'', IsDir = True\<rparr>),
      (''/p/src/a/client/d.go'', \<lparr>Name = ''d.go'', IsDir = True\<rparr>)] \<and>
   iterateDirs w_dirgo [constructClientPackagePath ''/p'' ''a''] = ([], Inr [''/p/src/a/client/d.go'']) \<and>
   parser_ParseFile w_dirgo ''/p/src/a/client/d.go'' = Inl (Error ''is a directory'') \<and>
   gopherjsCompilation w_dirgo ''/p'' ''a'' =
     ([Stderr ''error parsing /p/src/a/client/d.go: is a directory''],
      Return (Some (Error ''is a directory'')))"
proof -
  have h1: "readable (fs_tree w_dirgo (constructClientPackagePath ''/p'' ''a''))" by code_simp
  have h2: "entries (constructClientPackagePath ''/p'' ''a'') (basename (constructClientPackagePath ''/p'' ''a''))
     (fs_tree w_dirgo (constructClientPackagePath ''/p'' ''a'')) =
     [(''/p/src/a/client'', \<lparr>Name = ''client'', IsDir = True\<rparr>),
      (''/p/src/a/client/d.go'', \<lparr>Name = ''d.go'', IsDir = True\<rparr>)]" by code_simp
  have h3: "goPaths [(''/p/src/a/client'', \<lparr>Name = ''client'', IsDir = True\<rparr>),
      (''/p/src/a/client/d.go'', \<lparr>Name = ''d.go'', IsDir = True\<rparr>)] = [''/p/src/a/client/d.go'']"
    by code_simp
  have h4: "parser_ParseFile w_dirgo ''/p/src/a/client/d.go'' = Inl (Error ''is a directory'')"
    by code_simp
  have h5: "gopherjsCompilation w_dirgo ''/p'' ''a'' =
     ([Stderr ''error parsing /p/src/a/client/d.go: is a directory''],
      Return (Some (Error ''is a directory'')))" by code_simp
  note t = C8_directory_named_go_is_scanned[of w_dirgo "constructClientPackagePath ''/p'' ''a''"]
  show ?thesis using t h1 h2 h3 h4 h5 by simp
qed

section \<open>The template pairs\<close>

text \<open>
  Claim C5: the result of \<open>pageGeneration\<close> does not depend on what the directories named
  \<open>support\<close> contain: it is the same on the tree without their contents.  No path that the
  walk records, and no markup or description path given to the generator, has a component
  named \<open>support\<close> below the template root.
\<close>

theorem C5_support_is_pruned:
  "pageGeneration (w\<lparr>fs_tree := (\<lambda>p. prune (basename p) (fs_tree w p))\<rparr>) project arg =
     pageGeneration w project arg \<and>
   (validNames (fs_tree w (constructTemplatesPath project arg)) \<and>
    Walk w (constructTemplatesPath project arg) (pageGeneration_fn w) ([], [], []) =
      ((jsonFiles, htmlFiles, evs), r) \<longrightarrow>
      (\<forall>p \<in> set jsonFiles \<union> set htmlFiles.
         ''support'' \<notin> set (splitSlash (TrimPrefix p (constructTemplatesPath project arg))))) \<and>
   (validNames (fs_tree w (constructTemplatesPath project arg)) \<and>
    RunPagegen a \<in> set (fst (pageGeneration w project arg)) \<longrightarrow>
      (\<exists>html json.
         a = [''--support'', ''support'', ''--dir'', constructTemplatesPath project arg,
              ''--start'', html, ''--json'', json] \<and>
         ''support'' \<notin> set (splitSlash html) \<and> ''support'' \<notin> set (splitSlash json)))"
  using pageGeneration_prune[of w project arg]
    Walk_pairs_support_free[of w project arg jsonFiles htmlFiles evs r]
    pageGeneration_support_free[of w project arg a]
  by blast

theorem C5_support_is_pruned_witness:
  "validNames (fs_tree w_ex (constructTemplatesPath ''/p'' ''a'')) \<and>
   fs_tree w_ex (constructTemplatesPath ''/p'' ''a'') =
     Directory [(''support'', Directory [(''s.json'', NonDir)]),
                (''x'', Directory [(''page.html'', NonDir), (''page.json'', NonDir)])] \<and>
   Walk w_ex (constructTemplatesPath ''/p'' ''a'') (pageGeneration_fn w_ex) ([], [], []) =
     (([''/p/src/a/pages/template/x/page.json''], [''/p/src/a/pages/template/x/page.html''], []), None) \<and>
   ''support'' \<notin> set (splitSlash (TrimPrefix ''/p/src/a/pages/template/x/page.json''
                                      (constructTemplatesPath ''/p'' ''a''))) \<and>
   RunPagegen [''--support'', ''support'', ''--dir'', ''/p/src/a/pages/template'',
               ''--start'', ''/x/page.html'', ''--json'', ''/x/page.json'']
     \<in> set (fst (pageGeneration w_ex ''/p'' ''a'')) \<and>
   ''support'' \<notin> set (splitSlash ''/x/page.json'') \<and>
   pageGeneration (w_ex\<lparr>fs_tree := (\<lambda>p. prune (basename p) (fs_tree w_ex p))\<rparr>) ''/p'' ''a'' =
     pageGeneration w_ex ''/p'' ''a''"
proof -
  have h1: "validNames (fs_tree w_ex (constructTemplatesPath ''/p'' ''a''))" by code_simp
  have h2: "fs_tree w_ex (constructTemplatesPath ''/p'' ''a'') =
     Directory [(''support'', Directory [(''s.json'', NonDir)]),
                (''x'', Directory [(''page.html'', NonDir), (''page.json'', NonDir)])]" by code_simp
  have h3: "Walk w_ex (constructTemplatesPath ''/p'' ''a'') (pageGeneration_fn w_ex) ([], [], []) =
     (([''/p/src/a/pages/template/x/page.json''], [''/p/src/a/pages/template/x/page.html''], []), None)"
    by code_simp
  have h4: "RunPagegen [''--support'', ''support'', ''--dir'', ''/p/src/a/pages/template'',
               ''--start'', ''/x/page.html'', ''--json'', ''/x/page.json'']
     \<in> set (fst (pageGeneration w_ex ''/p'' ''a''))" by code_simp
  note t = C5_support_is_pruned[of w_ex "''/p''" "''a''"
      "[''/p/src/a/pages/template/x/page.json'']" "[''/p/src/a/pages/template/x/page.html'']" "[]" None
      "[''--support'', ''support'', ''--dir'', ''/p/src/a/pages/template'',
               ''--start'', ''/x/page.html'', ''--json'', ''/x/page.json'']"]
  show ?thesis using t h1 h2 h3 h4 by auto
qed

text \<open>
  Claim C4, as stated: any description file under the template root without its markup
  file makes the page generation fail, with a diagnostic that names the file and the
  expected place of the missing one.  A description file in a \<open>support\<close> directory is never
  looked at: with \<open>support/s.json\<close> alone and no \<open>s.html\<close>, \<open>pageGeneration\<close> returns
  \<open>nil\<close>.  And where the run does fail, for \<open>x/page.json\<close>, the two diagnostics name the
  description file only.
\<close>

theorem C4_unpaired_description_counterexample:
  "fs_tree w_support_only (constructTemplatesPath ''/p'' ''a'') =
     Directory [(''support'', Directory [(''s.json'', NonDir)])] \<and>
   os_Stat w_support_only ''/p/src/a/pages/template/support/s.html'' =
     Inl (Error ''no such file or directory'') \<and>
   pageGeneration w_support_only ''/p'' ''a'' = ([], Return None) \<and>
   pageGeneration w_nohtml ''/p'' ''a'' =
     ([Stderr ''unable to find corresponding html file for json file /p/src/a/pages/template/x/page.json\<newline>'',
       Stderr ''Unable to walk directory /p/src/a/pages/template: no html file for /p/src/a/pages/template/x/page.json''],
      Return (Some (Error ''no html file for /p/src/a/pages/template/x/page.json'')))"
  by code_simp

text \<open>
  Claim C4, amended: when an entry named \<open>base.json\<close> under the template root, outside
  every directory named \<open>support\<close>, has no \<open>base.html\<close> beside it (\<open>os.Stat\<close> fails),
  \<open>pageGeneration\<close> returns an error and does nothing but write to the standard error: no
  generator is started and no file is created, for any pair.  When moreover the whole tree
  can be read, the diagnostics are the two lines that name, by its path, the first such
  description file in the order of the walk (no entry before it lacks its companion); the
  path of the missing markup file is not printed.  What the \<open>support\<close> directories
  contain is never looked at: the result is the same on the tree without their contents.
\<close>

theorem C4_unpaired_description_aborts:
  "(e \<in> set (entries (constructTemplatesPath project arg)
                (basename (constructTemplatesPath project arg))
                (prune (basename (constructTemplatesPath project arg))
                   (fs_tree w (constructTemplatesPath project arg)))) \<and>
    companionMissing w e \<longrightarrow>
      (\<exists>evs err. pageGeneration w project arg = (evs, Return (Some err)) \<and>
         (\<forall>ev \<in> set evs. \<exists>m. ev = Stderr m))) \<and>
   (readable (fs_tree w (constructTemplatesPath project arg)) \<and>
    e \<in> set (entries (constructTemplatesPath project arg)
                (basename (constructTemplatesPath project arg))
                (prune (basename (constructTemplatesPath project arg))
                   (fs_tree w (constructTemplatesPath project arg)))) \<and>
    companionMissing w e \<longrightarrow>
      (\<exists>pre q post.
         entries (constructTemplatesPath project arg)
           (basename (constructTemplatesPath project arg))
           (prune (basename (constructTemplatesPath project arg))
              (fs_tree w (constructTemplatesPath project arg))) = pre @ q # post \<and>
         (\<forall>x \<in> set pre. \<not> companionMissing w x) \<and>
         companionMissing w q \<and>
         pageGeneration w project arg =
           ([Stderr (''unable to find corresponding html file for json file '' @ fst q @ ''\<newline>''),
             Stderr (''Unable to walk directory '' @ constructTemplatesPath project arg @
                     '': no html file for '' @ fst q)],
            Return (Some (Error (''no html file for '' @ fst q)))))) \<and>
   pageGeneration (w\<lparr>fs_tree := (\<lambda>p. prune (basename p) (fs_tree w p))\<rparr>) project arg =
     pageGeneration w project arg"
  using pageGeneration_unpaired_aborts[of e project arg w]
    pageGeneration_first_unpaired[of w project arg e]
    pageGeneration_prune[of w project arg]
  by blast

theorem C4_unpaired_description_aborts_witness:
  "readable (fs_tree w_two_unpaired (constructTemplatesPath ''/p'' ''a'')) \<and>
   entries (constructTemplatesPath ''/p'' ''a'') (basename (constructTemplatesPath ''/p'' ''a''))
     (prune (basename (constructTemplatesPath ''/p'' ''a''))
        (fs_tree w_two_unpaired (constructTemplatesPath ''/p'' ''a''))) =
     [(''/p/src/a/pages/template'', \<lparr>Name = ''template'', IsDir = True\<rparr>),
      (''/p/src/a/pages/template/a.json'', \<lparr>Name = ''a.json'', IsDir = False\<rparr>),
      (''/p/src/a/pages/template/b.json'', \<lparr>Name = ''b.json'', IsDir = False\<rparr>)] \<and>
   \<not> companionMissing w_two_unpaired (''/p/src/a/pages/template'', \<lparr>Name = ''template'', IsDir = True\<rparr>) \<and>
   companionMissing w_two_unpaired
     (''/p/src/a/pages/template/a.json'', \<lparr>Name = ''a.json'', IsDir = False\<rparr>) \<and>
   companionMissing w_two_unpaired
     (''/p/src/a/pages/template/b.json'', \<lparr>Name = ''b.json'', IsDir = False\<rparr>) \<and>
   (\<exists>evs err. pageGeneration w_two_unpaired ''/p'' ''a'' = (evs, Return (Some err)) \<and>
      list_all (\<lambda>ev. case ev of Stderr m \<Rightarrow> True | _ \<Rightarrow> False) evs) \<and>
   pageGeneration w_two_unpaired ''/p'' ''a'' =
     ([Stderr ''unable to find corresponding html file for json file /p/src/a/pages/template/a.json\<newline>'',
       Stderr ''Unable to walk directory /p/src/a/pages/template: no html file for /p/src/a/pages/template/a.json''],
      Return (Some (Error ''no html file for /p/src/a/pages/template/a.json'')))"
proof -
  let ?t = "(''/p/src/a/pages/template'', \<lparr>Name = ''template'', IsDir = True\<rparr>)"
  let ?a = "(''/p/src/a/pages/template/a.json'', \<lparr>Name = ''a.json'', IsDir = False\<rparr>)"
  let ?b = "(''/p/src/a/pages/template/b.json'', \<lparr>Name = ''b.json'', IsDir = False\<rparr>)"
  have h1: "readable (fs_tree w_two_unpaired (constructTemplatesPath ''/p'' ''a''))" by code_simp
  have h2: "entries (constructTemplatesPath ''/p'' ''a'') (basename (constructTemplatesPath ''/p'' ''a''))
     (prune (basename (constructTemplatesPath ''/p'' ''a''))
        (fs_tree w_two_unpaired (constructTemplatesPath ''/p'' ''a''))) = [?t, ?a, ?b]"
    by code_simp
  have h3: "\<not> companionMissing w_two_unpaired ?t" by code_simp
  have h4: "companionMissing w_two_unpaired ?a" by code_simp
  have h5: "companionMissing w_two_unpaired ?b" by code_simp
  have e1: "constructTemplatesPath ''/p'' ''a'' = ''/p/src/a/pages/template''" by code_simp
  note t = C4_unpaired_description_aborts[of ?b "''/p''" "''a''" w_two_unpaired, unfolded h2]
  have hyp1: "?b \<in> set [?t, ?a, ?b] \<and> companionMissing w_two_unpaired ?b" using h5 by simp
  have c1: "\<exists>evs err. pageGeneration w_two_unpaired ''/p'' ''a'' = (evs, Return (Some err)) \<and>
         (\<forall>ev \<in> set evs. \<exists>m. ev = Stderr m)"
    using t[THEN conjunct1, THEN mp, OF hyp1] .
  then have c1': "\<exists>evs err. pageGeneration w_two_unpaired ''/p'' ''a'' = (evs, Return (Some err)) \<and>
      list_all (\<lambda>ev. case ev of Stderr m \<Rightarrow> True | _ \<Rightarrow> False) evs"
    by (fastforce simp: list_all_iff)
  obtain pre q post where q: "[?t, ?a, ?b] = pre @ q # post"
      "\<forall>x \<in> set pre. \<not> companionMissing w_two_unpaired x" "companionMissing w_two_unpaired q"
      "pageGeneration w_two_unpaired ''/p'' ''a'' =
           ([Stderr (''unable to find corresponding html file for json file '' @ fst q @ ''\<newline>''),
             Stderr (''Unable to walk directory '' @ constructTemplatesPath ''/p'' ''a'' @
                     '': no html file for '' @ fst q)],
            Return (Some (Error (''no html file for '' @ fst q))))"
  proof -
    have hyp: "readable (fs_tree w_two_unpaired (constructTemplatesPath ''/p'' ''a'')) \<and>
        ?b \<in> set [?t, ?a, ?b] \<and> companionMissing w_two_unpaired ?b"
      using h1 h5 by simp
    note ex = t[THEN conjunct2, THEN conjunct1, THEN mp, OF hyp]
    assume r: "\<And>pre q post. [?t, ?a, ?b] = pre @ q # post \<Longrightarrow>
      \<forall>x \<in> set pre. \<not> companionMissing w_two_unpaired x \<Longrightarrow> companionMissing w_two_unpaired q \<Longrightarrow>
      pageGeneration w_two_unpaired ''/p'' ''a'' =
           ([Stderr (''unable to find corresponding html file for json file '' @ fst q @ ''\<newline>''),
             Stderr (''Unable to walk directory '' @ constructTemplatesPath ''/p'' ''a'' @
                     '': no html file for '' @ fst q)],
            Return (Some (Error (''no html file for '' @ fst q)))) \<Longrightarrow> thesis"
    from ex show thesis by (elim exE conjE) (rule r)
  qed
  have "q = ?a"
  proof (cases pre)
    case Nil
    then have "q = ?t" using q(1) by simp
    then show ?thesis using q(3) h3 by simp
  next
    case (Cons x pre1)
    then have x: "x = ?t" "[?a, ?b] = pre1 @ q # post" using q(1) by auto
    show ?thesis
    proof (cases pre1)
      case Nil
      then show ?thesis using x(2) by simp
    next
      case (Cons y pre2)
      then have "y = ?a" using x(2) by simp
      then have "?a \<in> set pre" using \<open>pre = x # pre1\<close> Cons by simp
      then show ?thesis using q(2) h4 by blast
    qed
  qed
  then have c2: "pageGeneration w_two_unpaired ''/p'' ''a'' =
     ([Stderr ''unable to find corresponding html file for json file /p/src/a/pages/template/a.json\<newline>'',
       Stderr ''Unable to walk directory /p/src/a/pages/template: no html file for /p/src/a/pages/template/a.json''],
      Return (Some (Error ''no html file for /p/src/a/pages/template/a.json'')))"
    using q(4) by (simp add: e1)
  show ?thesis using h1 h2 h3 h4 h5 c1' c2 by blast
qed

end
